theory Spec2Isabelle
  imports Complex_Main "HOL-Library.Word" "HOL-Library.List_Lexorder"
    "HOL-Library.Code_Target_Numeral"
begin

unbundle bit_operations_syntax

section \<open>Values of the host language\<close>

text \<open>
  A JavaScript string is a sequence of UTF-16 code units; \<open>length\<close> of the list is the
  \<^verbatim>\<open>.length\<close> of the string. A Buffer is a sequence of bytes.
\<close>

type_synonym unit16 = "16 word"
type_synonym jsstring = "unit16 list"
type_synonym byte = "8 word"
type_synonym buffer = "byte list"

text \<open>ASCII literals of the source, written as HOL strings.\<close>

definition lit :: "string \<Rightarrow> jsstring" where
  "lit s = map (\<lambda>c. of_nat (of_char c)) s"

text \<open>Everything the modelled functions can throw.\<close>

datatype error =
    NoSecretKey
  | SecretKeyTooShort nat
  | CookieNameEmpty
  | CookieNameInvalid
  | TypeError string
  | URIError
  | SyntaxError
  | RangeError
  | StringNotUnicode

subsection \<open>UTF-8 encoding of a string\<close>

text \<open>
  \<^verbatim>\<open>Buffer.from(s, 'utf-8')\<close>, \<^verbatim>\<open>Buffer.byteLength(s, 'utf-8')\<close> and
  \<^verbatim>\<open>hmac.update(s)\<close> encode a string as UTF-8: a surrogate pair is one code point of
  four bytes, a surrogate without its partner is written as U+FFFD (EF BF BD).
\<close>

definition is_high_surrogate :: "unit16 \<Rightarrow> bool" where
  "is_high_surrogate c \<longleftrightarrow> 0xD800 \<le> unat c \<and> unat c < 0xDC00"

definition is_low_surrogate :: "unit16 \<Rightarrow> bool" where
  "is_low_surrogate c \<longleftrightarrow> 0xDC00 \<le> unat c \<and> unat c < 0xE000"

definition utf8_of_codepoint :: "nat \<Rightarrow> buffer" where
  "utf8_of_codepoint n =
     (if n < 0x80 then [of_nat n]
      else if n < 0x800 then [of_nat (0xC0 + n div 64), of_nat (0x80 + n mod 64)]
      else if n < 0x10000 then
        [of_nat (0xE0 + n div 4096), of_nat (0x80 + n div 64 mod 64), of_nat (0x80 + n mod 64)]
      else
        [of_nat (0xF0 + n div 262144), of_nat (0x80 + n div 4096 mod 64),
         of_nat (0x80 + n div 64 mod 64), of_nat (0x80 + n mod 64)])"

definition pair_codepoint :: "unit16 \<Rightarrow> unit16 \<Rightarrow> nat" where
  "pair_codepoint hi lo = 0x10000 + (unat hi - 0xD800) * 0x400 + (unat lo - 0xDC00)"

definition utf8_of_unit :: "unit16 \<Rightarrow> buffer" where
  "utf8_of_unit c =
     (if is_high_surrogate c \<or> is_low_surrogate c then [0xEF, 0xBF, 0xBD]
      else utf8_of_codepoint (unat c))"

fun utf8_encode :: "jsstring \<Rightarrow> buffer" where
  "utf8_encode [] = []"
| "utf8_encode [c] = utf8_of_unit c"
| "utf8_encode (c # d # cs) =
     (if is_high_surrogate c \<and> is_low_surrogate d
      then utf8_of_codepoint (pair_codepoint c d) @ utf8_encode cs
      else utf8_of_unit c @ utf8_encode (d # cs))"

definition byteLength :: "jsstring \<Rightarrow> nat" where
  "byteLength s = length (utf8_encode s)"

text \<open>
  A string is well formed when every surrogate stands in a pair: such a string is the
  UTF-16 form of a sequence of code points.
\<close>

definition plain_unit :: "unit16 \<Rightarrow> bool" where
  "plain_unit c \<longleftrightarrow> \<not> is_high_surrogate c \<and> \<not> is_low_surrogate c"

fun well_formed :: "jsstring \<Rightarrow> bool" where
  "well_formed [] \<longleftrightarrow> True"
| "well_formed [c] \<longleftrightarrow> \<not> is_high_surrogate c \<and> \<not> is_low_surrogate c"
| "well_formed (c # d # cs) \<longleftrightarrow>
     (if is_high_surrogate c then is_low_surrogate d \<and> well_formed cs
      else \<not> is_low_surrogate c \<and> well_formed (d # cs))"

section \<open>Configuration\<close>

text \<open>The two variables of \<^verbatim>\<open>process.env\<close> that the modelled functions read.\<close>

record env =
  SESSION_COOKIE_SECRET :: "jsstring option"
  SESSION_COOKIE_NAME :: "jsstring option"

text \<open>
  \<^verbatim>\<open>getSecretKey\<close>: a missing or empty secret is refused first, then one of fewer than
  32 bytes of UTF-8.
\<close>

definition getSecretKey :: "env \<Rightarrow> error + jsstring" where
  "getSecretKey e =
     (case SESSION_COOKIE_SECRET e of
        None \<Rightarrow> Inl NoSecretKey
      | Some secret \<Rightarrow>
          if secret = [] then Inl NoSecretKey
          else let secretLength = byteLength secret in
            if secretLength < 32 then Inl (SecretKeyTooShort secretLength)
            else Inr secret)"

section \<open>Hash functions of the platform\<close>

text \<open>
  \<^verbatim>\<open>crypto.createHmac\<close> is the platform's HMAC (RFC 2104) over SHA-1, SHA-256 or
  SHA-512 (FIPS 180-4). They are written out here so that a signature is a value that
  can be computed.
\<close>

definition be_bytes :: "nat \<Rightarrow> nat \<Rightarrow> buffer" where
  "be_bytes k n = map (\<lambda>i. of_nat (n div 256 ^ (k - 1 - i))) [0..<k]"

definition be_nat :: "buffer \<Rightarrow> nat" where
  "be_nat bs = foldl (\<lambda>acc b. acc * 256 + unat b) 0 bs"

function chunks :: "nat \<Rightarrow> 'a list \<Rightarrow> 'a list list" where
  "chunks n xs = (if n = 0 \<or> xs = [] then [] else take n xs # chunks n (drop n xs))"
  by pat_completeness auto
termination
  by (relation "measure (\<lambda>(n, xs). length xs)") auto

declare chunks.simps [simp del]

definition md_pad :: "nat \<Rightarrow> nat \<Rightarrow> buffer \<Rightarrow> buffer" where
  "md_pad block lenbytes msg =
     msg @ [0x80] @ replicate ((block - (length msg + 1 + lenbytes) mod block) mod block) 0
       @ be_bytes lenbytes (8 * length msg)"

definition block_words :: "nat \<Rightarrow> buffer \<Rightarrow> 'a::len word list" where
  "block_words k block = map (\<lambda>bs. of_nat (be_nat bs)) (chunks k block)"

text \<open>SHA-1.\<close>

definition sha1_f :: "nat \<Rightarrow> 32 word \<Rightarrow> 32 word \<Rightarrow> 32 word \<Rightarrow> 32 word" where
  "sha1_f t b c d =
     (if t < 20 then (b AND c) OR (NOT b AND d)
      else if t < 40 then b XOR c XOR d
      else if t < 60 then (b AND c) OR (b AND d) OR (c AND d)
      else b XOR c XOR d)"

definition sha1_k :: "nat \<Rightarrow> 32 word" where
  "sha1_k t =
     (if t < 20 then 0x5A827999 else if t < 40 then 0x6ED9EBA1
      else if t < 60 then 0x8F1BBCDC else 0xCA62C1D6)"

fun sha1_schedule :: "nat \<Rightarrow> 32 word list \<Rightarrow> 32 word list" where
  "sha1_schedule 0 w = w"
| "sha1_schedule (Suc n) w =
     (let t = length w in
      sha1_schedule n
        (w @ [word_rotl 1 (w ! (t - 3) XOR w ! (t - 8) XOR w ! (t - 14) XOR w ! (t - 16))]))"

type_synonym sha1_state = "32 word \<times> 32 word \<times> 32 word \<times> 32 word \<times> 32 word"

fun sha1_round :: "32 word list \<Rightarrow> sha1_state \<Rightarrow> nat \<Rightarrow> sha1_state" where
  "sha1_round w (a, b, c, d, e) t =
     (word_rotl 5 a + sha1_f t b c d + e + sha1_k t + w ! t, a, word_rotl 30 b, c, d)"

fun sha1_block :: "sha1_state \<Rightarrow> buffer \<Rightarrow> sha1_state" where
  "sha1_block (h0, h1, h2, h3, h4) block =
     (case foldl (sha1_round (sha1_schedule 64 (block_words 4 block)))
             (h0, h1, h2, h3, h4) [0..<80] of
        (a, b, c, d, e) \<Rightarrow> (h0 + a, h1 + b, h2 + c, h3 + d, h4 + e))"

definition sha1 :: "buffer \<Rightarrow> buffer" where
  "sha1 msg =
     (case foldl sha1_block
             (0x67452301, 0xEFCDAB89, 0x98BADCFE, 0x10325476, 0xC3D2E1F0)
             (chunks 64 (md_pad 64 8 msg)) of
        (h0, h1, h2, h3, h4) \<Rightarrow> concat (map (\<lambda>h. be_bytes 4 (unat h)) [h0, h1, h2, h3, h4]))"

text \<open>
  SHA-256 and SHA-512 share one shape and differ in the word size, the rotation
  amounts, the number of rounds and the constants.
\<close>

definition rot3 :: "nat \<times> nat \<times> nat \<Rightarrow> 'a::len word \<Rightarrow> 'a word" where
  "rot3 r x = (case r of (i, j, k) \<Rightarrow> word_rotr i x XOR word_rotr j x XOR word_rotr k x)"

definition rot2_shift :: "nat \<times> nat \<times> nat \<Rightarrow> 'a::len word \<Rightarrow> 'a word" where
  "rot2_shift r x = (case r of (i, j, k) \<Rightarrow> word_rotr i x XOR word_rotr j x XOR drop_bit k x)"

record sha2_params =
  big_sigma0 :: "nat \<times> nat \<times> nat"
  big_sigma1 :: "nat \<times> nat \<times> nat"
  small_sigma0 :: "nat \<times> nat \<times> nat"
  small_sigma1 :: "nat \<times> nat \<times> nat"

fun sha2_schedule :: "sha2_params \<Rightarrow> nat \<Rightarrow> 'a::len word list \<Rightarrow> 'a word list" where
  "sha2_schedule p 0 w = w"
| "sha2_schedule p (Suc n) w =
     (let t = length w in
      sha2_schedule p n
        (w @ [rot2_shift (small_sigma1 p) (w ! (t - 2)) + w ! (t - 7)
                + rot2_shift (small_sigma0 p) (w ! (t - 15)) + w ! (t - 16)]))"

definition sha2_round ::
  "sha2_params \<Rightarrow> 'a::len word list \<Rightarrow> 'a word list \<Rightarrow> 'a word list \<Rightarrow> nat \<Rightarrow> 'a word list" where
  "sha2_round p ks w s t =
     (case s of
        [a, b, c, d, e, f, g, h] \<Rightarrow>
          (let t1 = h + rot3 (big_sigma1 p) e + ((e AND f) XOR (NOT e AND g)) + ks ! t + w ! t;
               t2 = rot3 (big_sigma0 p) a + ((a AND b) XOR (a AND c) XOR (b AND c))
           in [t1 + t2, a, b, c, d + t1, e, f, g])
      | _ \<Rightarrow> s)"

definition sha2_block ::
  "sha2_params \<Rightarrow> nat \<Rightarrow> 'a::len word list \<Rightarrow> 'a word list \<Rightarrow> buffer \<Rightarrow> 'a word list" where
  "sha2_block p wbytes ks hs block =
     map2 (+) hs
       (foldl (sha2_round p ks (sha2_schedule p (length ks - 16) (block_words wbytes block)))
          hs [0..<length ks])"

definition sha2 ::
  "sha2_params \<Rightarrow> nat \<Rightarrow> 'a::len word list \<Rightarrow> 'a word list \<Rightarrow> buffer \<Rightarrow> buffer" where
  "sha2 p wbytes ks h0 msg =
     concat (map (\<lambda>h. be_bytes wbytes (unat h))
       (foldl (sha2_block p wbytes ks) h0
          (chunks (16 * wbytes) (md_pad (16 * wbytes) (2 * wbytes) msg))))"

text \<open>
  The round constants are the leading fractional bits of the cube roots of the first
  primes, the initial values those of the square roots (FIPS 180-4, sections 4.2 and
  5.3), written in decimal.
\<close>

definition sha256_k :: "32 word list" where
  "sha256_k =
    [1116352408, 1899447441, 3049323471, 3921009573, 961987163, 1508970993,
     2453635748, 2870763221, 3624381080, 310598401, 607225278, 1426881987,
     1925078388, 2162078206, 2614888103, 3248222580, 3835390401, 4022224774,
     264347078, 604807628, 770255983, 1249150122, 1555081692, 1996064986,
     2554220882, 2821834349, 2952996808, 3210313671, 3336571891, 3584528711,
     113926993, 338241895, 666307205, 773529912, 1294757372, 1396182291,
     1695183700, 1986661051, 2177026350, 2456956037, 2730485921, 2820302411,
     3259730800, 3345764771, 3516065817, 3600352804, 4094571909, 275423344,
     430227734, 506948616, 659060556, 883997877, 958139571, 1322822218,
     1537002063, 1747873779, 1955562222, 2024104815, 2227730452, 2361852424,
     2428436474, 2756734187, 3204031479, 3329325298]"

definition sha256_h :: "32 word list" where
  "sha256_h =
    [1779033703, 3144134277, 1013904242, 2773480762,
     1359893119, 2600822924, 528734635, 1541459225]"

definition sha512_k :: "64 word list" where
  "sha512_k =
    [4794697086780616226, 8158064640168781261, 13096744586834688815,
     16840607885511220156, 4131703408338449720, 6480981068601479193,
     10538285296894168987, 12329834152419229976, 15566598209576043074,
     1334009975649890238, 2608012711638119052, 6128411473006802146,
     8268148722764581231, 9286055187155687089, 11230858885718282805,
     13951009754708518548, 16472876342353939154, 17275323862435702243,
     1135362057144423861, 2597628984639134821, 3308224258029322869,
     5365058923640841347, 6679025012923562964, 8573033837759648693,
     10970295158949994411, 12119686244451234320, 12683024718118986047,
     13788192230050041572, 14330467153632333762, 15395433587784984357,
     489312712824947311, 1452737877330783856, 2861767655752347644,
     3322285676063803686, 5560940570517711597, 5996557281743188959,
     7280758554555802590, 8532644243296465576, 9350256976987008742,
     10552545826968843579, 11727347734174303076, 12113106623233404929,
     14000437183269869457, 14369950271660146224, 15101387698204529176,
     15463397548674623760, 17586052441742319658, 1182934255886127544,
     1847814050463011016, 2177327727835720531, 2830643537854262169,
     3796741975233480872, 4115178125766777443, 5681478168544905931,
     6601373596472566643, 7507060721942968483, 8399075790359081724,
     8693463985226723168, 9568029438360202098, 10144078919501101548,
     10430055236837252648, 11840083180663258601, 13761210420658862357,
     14299343276471374635, 14566680578165727644, 15097957966210449927,
     16922976911328602910, 17689382322260857208, 500013540394364858,
     748580250866718886, 1242879168328830382, 1977374033974150939,
     2944078676154940804, 3659926193048069267, 4368137639120453308,
     4836135668995329356, 5532061633213252278, 6448918945643986474,
     6902733635092675308, 7801388544844847127]"

definition sha512_h :: "64 word list" where
  "sha512_h =
    [7640891576956012808, 13503953896175478587, 4354685564936845355,
     11912009170470909681, 5840696475078001361, 11170449401992604703,
     2270897969802886507, 6620516959819538809]"

definition sha256 :: "buffer \<Rightarrow> buffer" where
  "sha256 = sha2 \<lparr>big_sigma0 = (2, 13, 22), big_sigma1 = (6, 11, 25),
                  small_sigma0 = (7, 18, 3), small_sigma1 = (17, 19, 10)\<rparr> 4 sha256_k sha256_h"

definition sha512 :: "buffer \<Rightarrow> buffer" where
  "sha512 = sha2 \<lparr>big_sigma0 = (28, 34, 39), big_sigma1 = (14, 18, 41),
                  small_sigma0 = (1, 8, 7), small_sigma1 = (19, 61, 6)\<rparr> 8 sha512_k sha512_h"

datatype algorithm = Sha1 | Sha256 | Sha512

definition hash :: "algorithm \<Rightarrow> buffer \<Rightarrow> buffer" where
  "hash alg = (case alg of Sha1 \<Rightarrow> sha1 | Sha256 \<Rightarrow> sha256 | Sha512 \<Rightarrow> sha512)"

definition block_size :: "algorithm \<Rightarrow> nat" where
  "block_size alg = (case alg of Sha1 \<Rightarrow> 64 | Sha256 \<Rightarrow> 64 | Sha512 \<Rightarrow> 128)"

definition hmac :: "algorithm \<Rightarrow> buffer \<Rightarrow> buffer \<Rightarrow> buffer" where
  "hmac alg key msg =
     (let b = block_size alg;
          k0 = (if length key > b then hash alg key else key);
          k = k0 @ replicate (b - length k0) 0
      in hash alg (map (\<lambda>x. x XOR 0x5C) k @ hash alg (map (\<lambda>x. x XOR 0x36) k @ msg)))"

section \<open>Text encodings of a digest\<close>

text \<open>
  \<^verbatim>\<open>hmac.digest(encoding)\<close> renders the digest as text: base64 with its padding
  (RFC 4648), base64url without padding, lower-case hexadecimal, or one code unit per
  byte.
\<close>

definition b64code :: "nat \<Rightarrow> nat" where
  "b64code v =
     (if v < 26 then 65 + v
      else if v < 52 then 71 + v
      else if v < 62 then v - 4
      else if v = 62 then 43
      else 47)"

definition b64char :: "nat \<Rightarrow> unit16" where
  "b64char v = of_nat (b64code v)"

fun base64_encode :: "buffer \<Rightarrow> jsstring" where
  "base64_encode [] = []"
| "base64_encode [a] =
     (let n = unat a in [b64char (n div 4), b64char (n mod 4 * 16), 0x3D, 0x3D])"
| "base64_encode [a, b] =
     (let n = unat a * 256 + unat b in
      [b64char (n div 1024), b64char (n div 16 mod 64), b64char (n mod 16 * 4), 0x3D])"
| "base64_encode (a # b # c # rest) =
     (let n = (unat a * 256 + unat b) * 256 + unat c in
      [b64char (n div 262144), b64char (n div 4096 mod 64), b64char (n div 64 mod 64),
       b64char (n mod 64)] @ base64_encode rest)"

definition base64url_encode :: "buffer \<Rightarrow> jsstring" where
  "base64url_encode bs =
     map (\<lambda>c. if c = 0x2B then 0x2D else if c = 0x2F then 0x5F else c)
       (filter (\<lambda>c. c \<noteq> 0x3D) (base64_encode bs))"

definition hex_digit :: "nat \<Rightarrow> unit16" where
  "hex_digit v = (if v < 10 then of_nat (48 + v) else of_nat (87 + v))"

definition hex_encode :: "buffer \<Rightarrow> jsstring" where
  "hex_encode bs = concat (map (\<lambda>b. [hex_digit (unat b div 16), hex_digit (unat b mod 16)]) bs)"

definition latin1_decode :: "buffer \<Rightarrow> jsstring" where
  "latin1_decode bs = map (\<lambda>b. of_nat (unat b)) bs"

datatype encoding = Base64 | Base64url | Hex | Binary

definition digest_text :: "encoding \<Rightarrow> buffer \<Rightarrow> jsstring" where
  "digest_text enc bs =
     (case enc of
        Base64 \<Rightarrow> base64_encode bs
      | Base64url \<Rightarrow> base64url_encode bs
      | Hex \<Rightarrow> hex_encode bs
      | Binary \<Rightarrow> latin1_decode bs)"

section \<open>Signing and verification\<close>

text \<open>The data to sign is a string, hashed as its UTF-8 bytes, or a Buffer.\<close>

datatype data = StringData jsstring | BufferData buffer

definition data_bytes :: "data \<Rightarrow> buffer" where
  "data_bytes d = (case d of StringData s \<Rightarrow> utf8_encode s | BufferData b \<Rightarrow> b)"

record sign_opts =
  algorithm :: "algorithm option"
  encoding :: "encoding option"

text \<open>
  The replacement at the end of \<^verbatim>\<open>sign\<close>: every \<^verbatim>\<open>/\<close> becomes \<^verbatim>\<open>_\<close>, every
  \<^verbatim>\<open>+\<close> becomes \<^verbatim>\<open>-\<close>, every \<^verbatim>\<open>=\<close> is deleted.
\<close>

definition replace_unsafe :: "jsstring \<Rightarrow> jsstring" where
  "replace_unsafe s =
     concat (map (\<lambda>x. if x = 0x2F then [0x5F] else if x = 0x2B then [0x2D]
                        else if x = 0x3D then [] else [x]) s)"

definition sign :: "data \<Rightarrow> jsstring \<Rightarrow> sign_opts option \<Rightarrow> jsstring" where
  "sign d key opts =
     (let alg = (case opts of None \<Rightarrow> Sha1
                 | Some os \<Rightarrow> (case algorithm os of None \<Rightarrow> Sha1 | Some a \<Rightarrow> a));
          enc = (case opts of None \<Rightarrow> Base64
                 | Some os \<Rightarrow> (case encoding os of None \<Rightarrow> Base64 | Some e \<Rightarrow> e))
      in replace_unsafe (digest_text enc (hmac alg (utf8_encode key) (data_bytes d))))"

text \<open>
  \<^verbatim>\<open>crypto.timingSafeEqual\<close> compares two buffers of one length and throws on buffers
  of different lengths. \<^verbatim>\<open>bufferEqual\<close> uses it where the platform has it
  (\<open>native\<close>), and scans the bytes itself otherwise.
\<close>

definition timingSafeEqual :: "buffer \<Rightarrow> buffer \<Rightarrow> error + bool" where
  "timingSafeEqual a b = (if length a \<noteq> length b then Inl RangeError else Inr (a = b))"

function scan_from :: "nat \<Rightarrow> buffer \<Rightarrow> buffer \<Rightarrow> bool" where
  "scan_from i a b =
     (if i < length a
      then (if i < length b \<and> a ! i = b ! i then scan_from (Suc i) a b else False)
      else True)"
  by pat_completeness auto
termination
  by (relation "measure (\<lambda>(i, a, b). length a - i)") auto

declare scan_from.simps [simp del]

definition bufferEqual :: "bool \<Rightarrow> buffer \<Rightarrow> buffer \<Rightarrow> error + bool" where
  "bufferEqual native a b =
     (if length a \<noteq> length b then Inr False
      else if native then timingSafeEqual a b
      else Inr (scan_from 0 a b))"

text \<open>
  \<^verbatim>\<open>timeSafeCompare\<close>: \<open>rnd\<close> is the key that \<^verbatim>\<open>crypto.randomBytes(32)\<close> returned
  for this call. The conjunction evaluates \<^verbatim>\<open>a === b\<close> only when the digests are
  equal.
\<close>

definition timeSafeCompare :: "bool \<Rightarrow> buffer \<Rightarrow> jsstring \<Rightarrow> jsstring \<Rightarrow> error + bool" where
  "timeSafeCompare native rnd a b =
     (let ah = hmac Sha256 rnd (utf8_encode a);
          bh = hmac Sha256 rnd (utf8_encode b)
      in case bufferEqual native ah bh of
           Inl e \<Rightarrow> Inl e
         | Inr eq \<Rightarrow> Inr (eq \<and> a = b))"

definition verify ::
  "bool \<Rightarrow> buffer \<Rightarrow> jsstring \<Rightarrow> data \<Rightarrow> jsstring \<Rightarrow> error + bool" where
  "verify native rnd key d signature = timeSafeCompare native rnd signature (sign d key None)"

section \<open>Decoding\<close>

subsection \<open>UTF-8 decoding of a Buffer\<close>

text \<open>
  \<^verbatim>\<open>buf.toString('utf-8')\<close> never throws: every maximal ill-formed part of the input
  becomes one U+FFFD, and the byte that ended it is read again. A code point beyond
  U+FFFF becomes a surrogate pair.
\<close>

definition is_cont :: "nat \<Rightarrow> bool" where
  "is_cont b \<longleftrightarrow> 0x80 \<le> b \<and> b < 0xC0"

definition second_ok :: "nat \<Rightarrow> nat \<Rightarrow> bool" where
  "second_ok b0 b1 =
     (if b0 = 0xE0 then 0xA0 \<le> b1 \<and> b1 < 0xC0
      else if b0 = 0xED then 0x80 \<le> b1 \<and> b1 < 0xA0
      else if b0 = 0xF0 then 0x90 \<le> b1 \<and> b1 < 0xC0
      else if b0 = 0xF4 then 0x80 \<le> b1 \<and> b1 < 0x90
      else is_cont b1)"

definition units_of_codepoint :: "nat \<Rightarrow> jsstring" where
  "units_of_codepoint cp =
     (if cp < 0x10000 then [of_nat cp]
      else [of_nat (0xD800 + (cp - 0x10000) div 0x400),
            of_nat (0xDC00 + (cp - 0x10000) mod 0x400)])"

fun utf8_decode :: "buffer \<Rightarrow> jsstring" where
  "utf8_decode [] = []"
| "utf8_decode (b # bs) =
     (let b0 = unat b in
      if b0 < 0x80 then of_nat b0 # utf8_decode bs
      else if 0xC2 \<le> b0 \<and> b0 < 0xE0 then
        (case bs of
           [] \<Rightarrow> [0xFFFD]
         | c # cs \<Rightarrow>
             if is_cont (unat c)
             then of_nat ((b0 - 0xC0) * 64 + (unat c - 0x80)) # utf8_decode cs
             else 0xFFFD # utf8_decode bs)
      else if 0xE0 \<le> b0 \<and> b0 < 0xF0 then
        (case bs of
           [] \<Rightarrow> [0xFFFD]
         | c # cs \<Rightarrow>
             if \<not> second_ok b0 (unat c) then 0xFFFD # utf8_decode bs
             else
               (case cs of
                  [] \<Rightarrow> [0xFFFD]
                | d # ds \<Rightarrow>
                    if is_cont (unat d)
                    then of_nat (((b0 - 0xE0) * 64 + (unat c - 0x80)) * 64 + (unat d - 0x80))
                           # utf8_decode ds
                    else 0xFFFD # utf8_decode cs))
      else if 0xF0 \<le> b0 \<and> b0 < 0xF5 then
        (case bs of
           [] \<Rightarrow> [0xFFFD]
         | c # cs \<Rightarrow>
             if \<not> second_ok b0 (unat c) then 0xFFFD # utf8_decode bs
             else
               (case cs of
                  [] \<Rightarrow> [0xFFFD]
                | d # ds \<Rightarrow>
                    if \<not> is_cont (unat d) then 0xFFFD # utf8_decode cs
                    else
                      (case ds of
                         [] \<Rightarrow> [0xFFFD]
                       | e # es \<Rightarrow>
                           if is_cont (unat e)
                           then units_of_codepoint
                                  ((((b0 - 0xF0) * 64 + (unat c - 0x80)) * 64 + (unat d - 0x80)) * 64
                                     + (unat e - 0x80))
                                  @ utf8_decode es
                           else 0xFFFD # utf8_decode ds)))
      else 0xFFFD # utf8_decode bs)"

subsection \<open>Base64 decoding of a string\<close>

text \<open>
  \<^verbatim>\<open>Buffer.from(s, 'base64')\<close> never throws: it reads the low byte of every code unit,
  takes both the standard and the URL-safe alphabet, skips every other byte, stops at
  the first \<^verbatim>\<open>=\<close>, and drops the bits of an incomplete last byte.
\<close>

definition low_byte :: "unit16 \<Rightarrow> nat" where
  "low_byte c = unat c mod 256"

definition b64val :: "unit16 \<Rightarrow> nat option" where
  "b64val c =
     (let n = low_byte c in
      if 65 \<le> n \<and> n \<le> 90 then Some (n - 65)
      else if 97 \<le> n \<and> n \<le> 122 then Some (n - 71)
      else if 48 \<le> n \<and> n \<le> 57 then Some (n + 4)
      else if n = 43 \<or> n = 45 then Some 62
      else if n = 47 \<or> n = 95 then Some 63
      else None)"

fun sextets_bytes :: "nat list \<Rightarrow> buffer" where
  "sextets_bytes (a # b # c # d # rest) =
     [of_nat (a * 4 + b div 16), of_nat (b mod 16 * 16 + c div 4), of_nat (c mod 4 * 64 + d)]
       @ sextets_bytes rest"
| "sextets_bytes [a, b, c] = [of_nat (a * 4 + b div 16), of_nat (b mod 16 * 16 + c div 4)]"
| "sextets_bytes [a, b] = [of_nat (a * 4 + b div 16)]"
| "sextets_bytes [a] = []"
| "sextets_bytes [] = []"

definition base64_sextets :: "jsstring \<Rightarrow> nat list" where
  "base64_sextets s = List.map_filter b64val (takeWhile (\<lambda>c. low_byte c \<noteq> 0x3D) s)"

definition base64_decode :: "jsstring \<Rightarrow> buffer" where
  "base64_decode s = sextets_bytes (base64_sextets s)"

subsection \<open>Percent-decoding\<close>

text \<open>
  \<^verbatim>\<open>decodeURIComponent\<close> throws a URIError unless every \<^verbatim>\<open>%\<close> is followed by two
  hexadecimal digits and the escaped bytes are the UTF-8 encoding of code points.
\<close>

definition hexval :: "unit16 \<Rightarrow> nat option" where
  "hexval c =
     (let n = unat c in
      if 48 \<le> n \<and> n \<le> 57 then Some (n - 48)
      else if 97 \<le> n \<and> n \<le> 102 then Some (n - 87)
      else if 65 \<le> n \<and> n \<le> 70 then Some (n - 55)
      else None)"

datatype uri_item = Plain unit16 | Escaped nat | Malformed

fun uri_items :: "jsstring \<Rightarrow> uri_item list" where
  "uri_items [] = []"
| "uri_items (c # cs) =
     (if c \<noteq> 0x25 then Plain c # uri_items cs
      else
        (case cs of
           x # y # rest \<Rightarrow>
             (case (hexval x, hexval y) of
                (Some a, Some b) \<Rightarrow> Escaped (16 * a + b) # uri_items rest
              | _ \<Rightarrow> [Malformed])
         | _ \<Rightarrow> [Malformed]))"

fun utf8_sequence :: "nat list \<Rightarrow> nat option" where
  "utf8_sequence [b0, b1] =
     (if 0xC2 \<le> b0 \<and> b0 < 0xE0 \<and> is_cont b1
      then Some ((b0 - 0xC0) * 64 + (b1 - 0x80)) else None)"
| "utf8_sequence [b0, b1, b2] =
     (let cp = ((b0 - 0xE0) * 64 + (b1 - 0x80)) * 64 + (b2 - 0x80) in
      if 0xE0 \<le> b0 \<and> b0 < 0xF0 \<and> is_cont b1 \<and> is_cont b2 \<and> 0x800 \<le> cp
           \<and> \<not> (0xD800 \<le> cp \<and> cp < 0xE000)
      then Some cp else None)"
| "utf8_sequence [b0, b1, b2, b3] =
     (let cp = (((b0 - 0xF0) * 64 + (b1 - 0x80)) * 64 + (b2 - 0x80)) * 64 + (b3 - 0x80) in
      if 0xF0 \<le> b0 \<and> b0 < 0xF8 \<and> is_cont b1 \<and> is_cont b2 \<and> is_cont b3
           \<and> 0x10000 \<le> cp \<and> cp < 0x110000
      then Some cp else None)"
| "utf8_sequence _ = None"

definition sequence_length :: "nat \<Rightarrow> nat" where
  "sequence_length b0 =
     (if 0xC0 \<le> b0 \<and> b0 < 0xE0 then 2
      else if 0xE0 \<le> b0 \<and> b0 < 0xF0 then 3
      else if 0xF0 \<le> b0 \<and> b0 < 0xF8 then 4
      else 0)"

fun escaped_bytes :: "uri_item list \<Rightarrow> nat list option" where
  "escaped_bytes [] = Some []"
| "escaped_bytes (Escaped b # r) = map_option ((#) b) (escaped_bytes r)"
| "escaped_bytes (_ # r) = None"

fun decode_items :: "uri_item list \<Rightarrow> error + jsstring" where
  "decode_items [] = Inr []"
| "decode_items (Plain c # r) = map_sum id ((#) c) (decode_items r)"
| "decode_items (Malformed # r) = Inl URIError"
| "decode_items (Escaped b # r) =
     (if b < 0x80 then map_sum id ((#) (of_nat b)) (decode_items r)
      else
        (let n = sequence_length b in
         if n = 0 \<or> length r < n - 1 then Inl URIError
         else
           (case escaped_bytes (take (n - 1) r) of
              None \<Rightarrow> Inl URIError
            | Some bs \<Rightarrow>
                (case utf8_sequence (b # bs) of
                   None \<Rightarrow> Inl URIError
                 | Some cp \<Rightarrow>
                     map_sum id ((@) (units_of_codepoint cp)) (decode_items (drop (n - 1) r))))))"

definition decodeURIComponent :: "jsstring \<Rightarrow> error + jsstring" where
  "decodeURIComponent s = decode_items (uri_items s)"

section \<open>Parsing a Cookie header\<close>

subsection \<open>String operations\<close>

text \<open>\<^verbatim>\<open>s.split(sep)\<close> for a separator of one character: never an empty list.\<close>

fun split_acc :: "unit16 \<Rightarrow> jsstring \<Rightarrow> jsstring \<Rightarrow> jsstring list" where
  "split_acc sep cur [] = [cur]"
| "split_acc sep cur (c # cs) =
     (if c = sep then cur # split_acc sep [] cs else split_acc sep (cur @ [c]) cs)"

definition split :: "unit16 \<Rightarrow> jsstring \<Rightarrow> jsstring list" where
  "split sep s = split_acc sep [] s"

text \<open>\<^verbatim>\<open>s.trim()\<close> removes white space and line terminators at both ends.\<close>

definition is_whitespace :: "unit16 \<Rightarrow> bool" where
  "is_whitespace c \<longleftrightarrow>
     c \<in> {0x09, 0x0A, 0x0B, 0x0C, 0x0D, 0x20, 0xA0, 0x1680, 0x2028, 0x2029, 0x202F, 0x205F,
           0x3000, 0xFEFF} \<or> (0x2000 \<le> unat c \<and> unat c \<le> 0x200A)"

definition trim :: "jsstring \<Rightarrow> jsstring" where
  "trim s = rev (dropWhile is_whitespace (rev (dropWhile is_whitespace s)))"

subsection \<open>parseCookie\<close>

text \<open>
  A decoder is called with \<^verbatim>\<open>val[1]\<close>, which is \<^verbatim>\<open>undefined\<close> (\<open>None\<close>) for a
  segment without \<^verbatim>\<open>=\<close>; it returns a string, or nothing, or throws. The default
  decoder \<^verbatim>\<open>decode\<close> throws a TypeError on \<^verbatim>\<open>undefined\<close> (it reads
  \<^verbatim>\<open>str.indexOf\<close>) and calls \<^verbatim>\<open>decodeURIComponent\<close> only on a string with a
  \<^verbatim>\<open>%\<close>.
\<close>

type_synonym decoder = "jsstring option \<Rightarrow> error + jsstring option"

definition decode :: decoder where
  "decode str =
     (case str of
        None \<Rightarrow> Inl (TypeError ''Cannot read properties of undefined (reading indexOf)'')
      | Some s \<Rightarrow> if 0x25 \<in> set s then map_sum id Some (decodeURIComponent s) else Inr (Some s))"

text \<open>\<^verbatim>\<open>tryDecode\<close>: whatever the decoder throws is caught, and the input returned.\<close>

definition tryDecode :: "jsstring option \<Rightarrow> decoder \<Rightarrow> error + jsstring option" where
  "tryDecode str dec = (case dec str of Inl err \<Rightarrow> Inr str | Inr v \<Rightarrow> Inr v)"

datatype cookie_value = CString jsstring | CTrue

type_synonym cookie_map = "jsstring \<rightharpoonup> cookie_value"

text \<open>
  \<^verbatim>\<open>acc[key] = value\<close> on a plain object: the key \<^verbatim>\<open>__proto__\<close> is the setter of the
  prototype, which ignores a string and a boolean, so no property is created.
\<close>

definition assign :: "cookie_map \<Rightarrow> jsstring \<Rightarrow> cookie_value \<Rightarrow> cookie_map" where
  "assign acc k v = (if k = lit ''__proto__'' then acc else acc(k \<mapsto> v))"

fun foldl_err :: "('a \<Rightarrow> 'b \<Rightarrow> error + 'a) \<Rightarrow> 'a \<Rightarrow> 'b list \<Rightarrow> error + 'a" where
  "foldl_err f acc [] = Inr acc"
| "foldl_err f acc (x # xs) =
     (case f acc x of Inl e \<Rightarrow> Inl e | Inr acc' \<Rightarrow> foldl_err f acc' xs)"

fun map_err :: "('a \<Rightarrow> error + 'b) \<Rightarrow> 'a list \<Rightarrow> error + 'b list" where
  "map_err f [] = Inr []"
| "map_err f (x # xs) =
     (case f x of
        Inl e \<Rightarrow> Inl e
      | Inr y \<Rightarrow> (case map_err f xs of Inl e \<Rightarrow> Inl e | Inr ys \<Rightarrow> Inr (y # ys)))"

text \<open>
  One step of the inner \<^verbatim>\<open>reduce\<close>: \<open>val\<close> is the segment, trimmed and split on every
  \<^verbatim>\<open>=\<close>; \<^verbatim>\<open>val[0]\<close> is the key and \<^verbatim>\<open>val[1]\<close> the value handed to the decoder; a
  result of \<^verbatim>\<open>undefined\<close> is replaced by \<^verbatim>\<open>true\<close>.
\<close>

definition parse_segment :: "decoder \<Rightarrow> cookie_map \<Rightarrow> jsstring list \<Rightarrow> error + cookie_map" where
  "parse_segment dec acc val =
     (case tryDecode (if 1 < length val then Some (val ! 1) else None) dec of
        Inl e \<Rightarrow> Inl e
      | Inr v \<Rightarrow>
          Inr (assign acc (val ! 0) (case v of None \<Rightarrow> CTrue | Some s \<Rightarrow> CString s)))"

definition parse_header :: "decoder \<Rightarrow> jsstring \<Rightarrow> error + cookie_map" where
  "parse_header dec cookie =
     foldl_err (parse_segment dec) Map.empty
       (map (\<lambda>s. split 0x3D (trim s)) (split 0x3B cookie))"

definition parseCookie :: "jsstring list \<Rightarrow> decoder option \<Rightarrow> error + cookie_map" where
  "parseCookie incomingCookies decode_opt =
     (let dec = (case decode_opt of None \<Rightarrow> decode | Some f \<Rightarrow> f) in
      case map_err (parse_header dec) incomingCookies of
        Inl e \<Rightarrow> Inl e
      | Inr parsedCookies \<Rightarrow> Inr (foldl (\<lambda>acc val. acc ++ val) Map.empty parsedCookies))"

section \<open>JSON\<close>

text \<open>
  A session payload is a JSON value. Numbers are kept abstract (\<open>'n\<close>): they are the
  finite numbers, the only ones a JSON value has; the text of a number is given by the
  host's number-to-string conversion \<open>num\<close>, whose result is ASCII, and a number is read
  back by the host's conversion \<open>numOf\<close>. An object is the list of its properties.
\<close>

datatype 'n json =
    JNull
  | JBool bool
  | JNumber 'n
  | JString jsstring
  | JArray "'n json list"
  | JObject "(jsstring \<times> 'n json) list"

subsection \<open>Canonical serialization\<close>

text \<open>
  \<^verbatim>\<open>JSON.stringify\<close> of a string: the quote, the backslash and the control characters
  are escaped, and so is a surrogate without its partner; a surrogate pair is copied.
\<close>

definition unicode_escape :: "unit16 \<Rightarrow> jsstring" where
  "unicode_escape c =
     [0x5C, 0x75, hex_digit (unat c div 4096), hex_digit (unat c div 256 mod 16),
      hex_digit (unat c div 16 mod 16), hex_digit (unat c mod 16)]"

definition quote_unit :: "unit16 \<Rightarrow> jsstring" where
  "quote_unit c =
     (if c = 0x08 then [0x5C, 0x62]
      else if c = 0x09 then [0x5C, 0x74]
      else if c = 0x0A then [0x5C, 0x6E]
      else if c = 0x0C then [0x5C, 0x66]
      else if c = 0x0D then [0x5C, 0x72]
      else if c = 0x22 then [0x5C, 0x22]
      else if c = 0x5C then [0x5C, 0x5C]
      else if unat c < 0x20 \<or> is_high_surrogate c \<or> is_low_surrogate c then unicode_escape c
      else [c])"

fun quote_units :: "jsstring \<Rightarrow> jsstring" where
  "quote_units [] = []"
| "quote_units [c] = quote_unit c"
| "quote_units (c # d # cs) =
     (if is_high_surrogate c \<and> is_low_surrogate d then c # d # quote_units cs
      else quote_unit c @ quote_units (d # cs))"

definition QuoteJSONString :: "jsstring \<Rightarrow> jsstring" where
  "QuoteJSONString s = [0x22] @ quote_units s @ [0x22]"

fun join :: "'a list \<Rightarrow> 'a list list \<Rightarrow> 'a list" where
  "join sep [] = []"
| "join sep [x] = x"
| "join sep (x # y # ys) = x @ sep @ join sep (y # ys)"

text \<open>
  \<^verbatim>\<open>stringify\<close> of json-canon: a string, and the key of a property, has to be
  well-formed Unicode, or the call throws. Then it is \<^verbatim>\<open>JSON.stringify\<close> on the
  primitive values, the elements of an array in their order, the properties of an
  object sorted by the code units of their keys, no white space.
\<close>

definition string_text :: "jsstring \<Rightarrow> error + jsstring" where
  "string_text s = (if well_formed s then Inr (QuoteJSONString s) else Inl StringNotUnicode)"

fun sequence :: "(error + 'a) list \<Rightarrow> error + 'a list" where
  "sequence [] = Inr []"
| "sequence (r # rs) =
     (case r of
        Inl e \<Rightarrow> Inl e
      | Inr x \<Rightarrow> (case sequence rs of Inl e \<Rightarrow> Inl e | Inr xs \<Rightarrow> Inr (x # xs)))"

function stringify :: "('n \<Rightarrow> string) \<Rightarrow> 'n json \<Rightarrow> error + jsstring" where
  "stringify num JNull = Inr (lit ''null'')"
| "stringify num (JBool b) = Inr (if b then lit ''true'' else lit ''false'')"
| "stringify num (JNumber n) = Inr (lit (num n))"
| "stringify num (JString s) = string_text s"
| "stringify num (JArray vs) =
     (case sequence (map (stringify num) vs) of
        Inl e \<Rightarrow> Inl e
      | Inr texts \<Rightarrow> Inr (lit ''['' @ join (lit '','') texts @ lit '']''))"
| "stringify num (JObject kvs) =
     (case sequence
             (map (\<lambda>kv. case string_text (fst kv) of
                           Inl e \<Rightarrow> Inl e
                         | Inr k \<Rightarrow>
                             (case stringify num (snd kv) of
                                Inl e \<Rightarrow> Inl e
                              | Inr v \<Rightarrow> Inr (k @ lit '':'' @ v)))
                (sort_key fst kvs)) of
        Inl e \<Rightarrow> Inl e
      | Inr members \<Rightarrow> Inr (lit ''{'' @ join (lit '','') members @ lit ''}''))"
  by pat_completeness auto
termination
proof (relation "measure (\<lambda>(num, v). size v)")
  show "wf (measure (\<lambda>(num :: 'n \<Rightarrow> string, v). size v))" by simp
next
  fix num :: "'n \<Rightarrow> string" and vs :: "'n json list" and x
  assume "x \<in> set vs"
  then have "size x \<le> size_list size vs" by (simp add: size_list_estimation')
  then show "((num, x), (num, JArray vs)) \<in> measure (\<lambda>(num, v). size v)" by simp
next
  fix num :: "'n \<Rightarrow> string" and kvs :: "(jsstring \<times> 'n json) list" and x
  assume "x \<in> set (sort_key fst kvs)"
  then have "x \<in> set kvs" by simp
  then have "size_prod (\<lambda>_. 0) size x \<le> size_list (size_prod (\<lambda>_. 0) size) kvs"
    by (simp add: size_list_estimation')
  then show "((num, snd x), (num, JObject kvs)) \<in> measure (\<lambda>(num, v). size v)"
    by (cases x) simp
qed

subsection \<open>Parsing\<close>

text \<open>
  \<^verbatim>\<open>JSON.parse\<close> in two passes: the text is cut into tokens, and the tokens are read
  with a stack of the arrays and objects that are still open. A number or a literal
  is the longest run of letters, digits, signs and dots, checked when it ends.
\<close>

datatype token =
    LBrace | RBrace | LBracket | RBracket | Colon | Comma
  | TString jsstring | TNumber jsstring | TTrue | TFalse | TNull

datatype lex_state =
    Idle
  | InString jsstring
  | InEscape jsstring
  | InUnicode jsstring nat nat
  | InWord jsstring

definition is_digit :: "unit16 \<Rightarrow> bool" where
  "is_digit c \<longleftrightarrow> 48 \<le> unat c \<and> unat c \<le> 57"

definition is_word_char :: "unit16 \<Rightarrow> bool" where
  "is_word_char c \<longleftrightarrow>
     is_digit c \<or> (65 \<le> unat c \<and> unat c \<le> 90) \<or> (97 \<le> unat c \<and> unat c \<le> 122)
       \<or> c = 0x2B \<or> c = 0x2D \<or> c = 0x2E"

definition is_json_space :: "unit16 \<Rightarrow> bool" where
  "is_json_space c \<longleftrightarrow> c = 0x20 \<or> c = 0x09 \<or> c = 0x0A \<or> c = 0x0D"

definition punctuation :: "unit16 \<Rightarrow> token option" where
  "punctuation c =
     (if c = 0x7B then Some LBrace else if c = 0x7D then Some RBrace
      else if c = 0x5B then Some LBracket else if c = 0x5D then Some RBracket
      else if c = 0x3A then Some Colon else if c = 0x2C then Some Comma
      else None)"

definition escape_char :: "unit16 \<Rightarrow> unit16 option" where
  "escape_char c =
     (if c = 0x22 \<or> c = 0x5C \<or> c = 0x2F then Some c
      else if c = 0x62 then Some 0x08 else if c = 0x66 then Some 0x0C
      else if c = 0x6E then Some 0x0A else if c = 0x72 then Some 0x0D
      else if c = 0x74 then Some 0x09
      else None)"

text \<open>The grammar of a number: sign, integer part without a leading zero, fraction, exponent.\<close>

definition valid_number :: "jsstring \<Rightarrow> bool" where
  "valid_number w =
     (let w1 = (case w of [] \<Rightarrow> [] | c # r \<Rightarrow> if c = 0x2D then r else w);
          ip = takeWhile is_digit w1;
          r1 = dropWhile is_digit w1;
          r2 = (case r1 of [] \<Rightarrow> [] | c # r \<Rightarrow> if c = 0x2E then dropWhile is_digit r else r1);
          frac_ok = (case r1 of [] \<Rightarrow> True
                     | c # r \<Rightarrow> if c = 0x2E then takeWhile is_digit r \<noteq> [] else True);
          exp_ok = (case r2 of [] \<Rightarrow> True
                    | c # r \<Rightarrow>
                        (c = 0x65 \<or> c = 0x45) \<and>
                        (let ds = (case r of [] \<Rightarrow> []
                                   | s # t \<Rightarrow> if s = 0x2B \<or> s = 0x2D then t else r)
                         in ds \<noteq> [] \<and> list_all is_digit ds))
      in ip \<noteq> [] \<and> (length ip = 1 \<or> hd ip \<noteq> 0x30) \<and> frac_ok \<and> exp_ok)"

definition word_token :: "jsstring \<Rightarrow> token option" where
  "word_token w =
     (if w = lit ''true'' then Some TTrue
      else if w = lit ''false'' then Some TFalse
      else if w = lit ''null'' then Some TNull
      else if valid_number w then Some (TNumber w)
      else None)"

function tokenize :: "lex_state \<Rightarrow> jsstring \<Rightarrow> token list option" where
  "tokenize Idle [] = Some []"
| "tokenize (InWord w) [] = map_option (\<lambda>t. [t]) (word_token w)"
| "tokenize (InString acc) [] = None"
| "tokenize (InEscape acc) [] = None"
| "tokenize (InUnicode acc v k) [] = None"
| "tokenize Idle (c # cs) =
     (if is_json_space c then tokenize Idle cs
      else if c = 0x22 then tokenize (InString []) cs
      else if is_word_char c then tokenize (InWord [c]) cs
      else (case punctuation c of
              None \<Rightarrow> None
            | Some t \<Rightarrow> map_option ((#) t) (tokenize Idle cs)))"
| "tokenize (InWord w) (c # cs) =
     (if is_word_char c then tokenize (InWord (w @ [c])) cs
      else (case word_token w of
              None \<Rightarrow> None
            | Some t \<Rightarrow> map_option ((#) t) (tokenize Idle (c # cs))))"
| "tokenize (InString acc) (c # cs) =
     (if c = 0x22 then map_option ((#) (TString acc)) (tokenize Idle cs)
      else if c = 0x5C then tokenize (InEscape acc) cs
      else if unat c < 0x20 then None
      else tokenize (InString (acc @ [c])) cs)"
| "tokenize (InEscape acc) (c # cs) =
     (if c = 0x75 then tokenize (InUnicode acc 0 0) cs
      else (case escape_char c of
              None \<Rightarrow> None
            | Some e \<Rightarrow> tokenize (InString (acc @ [e])) cs))"
| "tokenize (InUnicode acc v k) (c # cs) =
     (case hexval c of
        None \<Rightarrow> None
      | Some d \<Rightarrow>
          if k = 3 then tokenize (InString (acc @ [of_nat (v * 16 + d)])) cs
          else tokenize (InUnicode acc (v * 16 + d) (Suc k)) cs)"
  by pat_completeness auto
termination
  by (relation "measure (\<lambda>(st, s). 2 * length s + (case st of InWord w \<Rightarrow> 1 | _ \<Rightarrow> 0))") auto

datatype 'n frame =
    ArrF "'n json list"
  | ObjF "(jsstring \<times> 'n json) list" jsstring

datatype 'n pstate =
    NeedValue
  | NeedValueOrClose
  | NeedKeyOrClose
  | NeedKey "(jsstring \<times> 'n json) list"
  | NeedColon "(jsstring \<times> 'n json) list" jsstring
  | HaveValue "'n json"

text \<open>A property met twice keeps its place and takes the later value.\<close>

fun put :: "(jsstring \<times> 'n json) list \<Rightarrow> jsstring \<Rightarrow> 'n json \<Rightarrow> (jsstring \<times> 'n json) list" where
  "put [] k v = [(k, v)]"
| "put ((k', v') # ms) k v = (if k' = k then (k, v) # ms else (k', v') # put ms k v)"

definition number_text :: "jsstring \<Rightarrow> string" where
  "number_text w = map (\<lambda>c. char_of (unat c)) w"

definition start_value ::
  "(string \<Rightarrow> 'n) \<Rightarrow> 'n frame list \<Rightarrow> token \<Rightarrow> ('n frame list \<times> 'n pstate) option" where
  "start_value numOf stack t =
     (case t of
        TString s \<Rightarrow> Some (stack, HaveValue (JString s))
      | TNumber w \<Rightarrow> Some (stack, HaveValue (JNumber (numOf (number_text w))))
      | TTrue \<Rightarrow> Some (stack, HaveValue (JBool True))
      | TFalse \<Rightarrow> Some (stack, HaveValue (JBool False))
      | TNull \<Rightarrow> Some (stack, HaveValue JNull)
      | LBracket \<Rightarrow> Some (stack, NeedValueOrClose)
      | LBrace \<Rightarrow> Some (stack, NeedKeyOrClose)
      | _ \<Rightarrow> None)"

definition step ::
  "(string \<Rightarrow> 'n) \<Rightarrow> 'n frame list \<Rightarrow> 'n pstate \<Rightarrow> token \<Rightarrow> ('n frame list \<times> 'n pstate) option" where
  "step numOf stack st t =
     (case st of
        NeedValue \<Rightarrow> start_value numOf stack t
      | NeedValueOrClose \<Rightarrow>
          (if t = RBracket then Some (stack, HaveValue (JArray []))
           else start_value numOf (ArrF [] # stack) t)
      | NeedKeyOrClose \<Rightarrow>
          (case t of
             RBrace \<Rightarrow> Some (stack, HaveValue (JObject []))
           | TString k \<Rightarrow> Some (stack, NeedColon [] k)
           | _ \<Rightarrow> None)
      | NeedKey ms \<Rightarrow> (case t of TString k \<Rightarrow> Some (stack, NeedColon ms k) | _ \<Rightarrow> None)
      | NeedColon ms k \<Rightarrow> (case t of Colon \<Rightarrow> Some (ObjF ms k # stack, NeedValue) | _ \<Rightarrow> None)
      | HaveValue v \<Rightarrow>
          (case stack of
             [] \<Rightarrow> None
           | ArrF es # rest \<Rightarrow>
               (case t of
                  Comma \<Rightarrow> Some (ArrF (es @ [v]) # rest, NeedValue)
                | RBracket \<Rightarrow> Some (rest, HaveValue (JArray (es @ [v])))
                | _ \<Rightarrow> None)
           | ObjF ms k # rest \<Rightarrow>
               (case t of
                  Comma \<Rightarrow> Some (rest, NeedKey (put ms k v))
                | RBrace \<Rightarrow> Some (rest, HaveValue (JObject (put ms k v)))
                | _ \<Rightarrow> None)))"

fun run :: "(string \<Rightarrow> 'n) \<Rightarrow> 'n frame list \<Rightarrow> 'n pstate \<Rightarrow> token list \<Rightarrow> 'n json option" where
  "run numOf stack st [] = (case (stack, st) of ([], HaveValue v) \<Rightarrow> Some v | _ \<Rightarrow> None)"
| "run numOf stack st (t # ts) =
     (case step numOf stack st t of
        None \<Rightarrow> None
      | Some (stack', st') \<Rightarrow> run numOf stack' st' ts)"

definition JSON_parse :: "(string \<Rightarrow> 'n) \<Rightarrow> jsstring \<Rightarrow> error + 'n json" where
  "JSON_parse numOf text =
     (case tokenize Idle text of
        None \<Rightarrow> Inl SyntaxError
      | Some ts \<Rightarrow> (case run numOf [] NeedValue ts of None \<Rightarrow> Inl SyntaxError | Some v \<Rightarrow> Inr v))"

section \<open>The session cookie\<close>

definition SIGNATURE_DIGEST_LENGTH :: nat where
  "SIGNATURE_DIGEST_LENGTH = 27"

text \<open>
  \<^verbatim>\<open>createCookie\<close>: an explicit key that is not the empty string is used as it is; the
  key of the environment is read, and checked, only without one.
\<close>

definition createCookie ::
  "('n \<Rightarrow> string) \<Rightarrow> env \<Rightarrow> 'n json \<Rightarrow> jsstring option \<Rightarrow> error + jsstring" where
  "createCookie num e newSessionData secretKey =
     (case (case secretKey of
              None \<Rightarrow> getSecretKey e
            | Some k \<Rightarrow> if k \<noteq> [] then Inr k else getSecretKey e) of
        Inl err \<Rightarrow> Inl err
      | Inr key \<Rightarrow>
          (case stringify num newSessionData of
             Inl err \<Rightarrow> Inl err
           | Inr sessionAsJSON \<Rightarrow>
               Inr (sign (StringData sessionAsJSON) key None
                      @ base64_encode (utf8_encode sessionAsJSON))))"

definition parseSession :: "(string \<Rightarrow> 'n) \<Rightarrow> jsstring \<Rightarrow> error + 'n json" where
  "parseSession numOf encodedSession =
     (let data = drop SIGNATURE_DIGEST_LENGTH encodedSession;
          buf = base64_decode data;
          text = utf8_decode buf
      in JSON_parse numOf text)"

text \<open>
  \<^verbatim>\<open>verifySessionString\<close>: the signature and the data are cut and decoded first, the
  key is read when the arguments of \<^verbatim>\<open>verify\<close> are evaluated.
\<close>

definition verifySessionString :: "bool \<Rightarrow> buffer \<Rightarrow> env \<Rightarrow> jsstring \<Rightarrow> error + bool" where
  "verifySessionString native rnd e session =
     (let signature = take SIGNATURE_DIGEST_LENGTH session;
          data = utf8_decode (base64_decode (drop SIGNATURE_DIGEST_LENGTH session))
      in case getSecretKey e of
           Inl err \<Rightarrow> Inl err
         | Inr key \<Rightarrow> verify native rnd key (StringData data) signature)"

subsection \<open>The cookie of a request\<close>

record handler_event =
  multiValueHeaders :: "jsstring \<rightharpoonup> jsstring list"

definition getCookiesFromEvent :: "handler_event \<Rightarrow> jsstring list option" where
  "getCookiesFromEvent ev =
     (case multiValueHeaders ev (lit ''Cookie'') of
        Some incomingCookies \<Rightarrow> Some incomingCookies
      | None \<Rightarrow> multiValueHeaders ev (lit ''cookie''))"

text \<open>
  \<^verbatim>\<open>getCookieName\<close>: \<^verbatim>\<open>match\<close> with the global flag returns the runs of allowed
  characters, or \<^verbatim>\<open>null\<close>; the name is accepted when the first run is the whole name.
\<close>

definition is_name_char :: "unit16 \<Rightarrow> bool" where
  "is_name_char c \<longleftrightarrow>
     (65 \<le> unat c \<and> unat c \<le> 90) \<or> (97 \<le> unat c \<and> unat c \<le> 122) \<or> is_digit c
       \<or> c \<in> set (lit ''!#$%&*+-.^_`|~'') \<or> c = 0x27"

definition first_match :: "jsstring \<Rightarrow> jsstring option" where
  "first_match s =
     (let r = dropWhile (\<lambda>c. \<not> is_name_char c) s
      in if r = [] then None else Some (takeWhile is_name_char r))"

definition SESSION_COOKIE_NAME_DEFAULT :: jsstring where
  "SESSION_COOKIE_NAME_DEFAULT = lit ''session''"

definition getCookieName :: "env \<Rightarrow> error + jsstring" where
  "getCookieName e =
     (case SESSION_COOKIE_NAME e of
        None \<Rightarrow> Inr SESSION_COOKIE_NAME_DEFAULT
      | Some nameFromEnv \<Rightarrow>
          (let check = first_match nameFromEnv in
           if length nameFromEnv < 1 then Inl CookieNameEmpty
           else if check \<noteq> Some nameFromEnv then Inl CookieNameInvalid
           else Inr nameFromEnv))"

text \<open>
  Reading \<^verbatim>\<open>cookieMap[cookieName]\<close>: a property of the object itself, or one that every
  object inherits (a function, or the prototype), or \<^verbatim>\<open>undefined\<close>.
\<close>

datatype property = Own cookie_value | Inherited | Missing

definition inherited_names :: "jsstring list" where
  "inherited_names =
     map lit [''constructor'', ''__defineGetter__'', ''__defineSetter__'', ''hasOwnProperty'',
       ''__lookupGetter__'', ''__lookupSetter__'', ''isPrototypeOf'', ''propertyIsEnumerable'',
       ''toString'', ''valueOf'', ''__proto__'', ''toLocaleString'']"

definition read_property :: "cookie_map \<Rightarrow> jsstring \<Rightarrow> property" where
  "read_property m k =
     (case m k of
        Some v \<Rightarrow> Own v
      | None \<Rightarrow> if k \<in> set inherited_names then Inherited else Missing)"

text \<open>
  \<^verbatim>\<open>verifyCookieFromEvent\<close>: false without a Cookie header and without a session
  cookie (or with an empty one); a value that is not a string has no \<^verbatim>\<open>substring\<close>.
\<close>

definition verifyCookieFromEvent ::
  "bool \<Rightarrow> buffer \<Rightarrow> env \<Rightarrow> handler_event \<Rightarrow> error + bool" where
  "verifyCookieFromEvent native rnd e ev =
     (case getCookiesFromEvent ev of
        None \<Rightarrow> Inr False
      | Some cookies \<Rightarrow>
          (case parseCookie cookies None of
             Inl err \<Rightarrow> Inl err
           | Inr cookieMap \<Rightarrow>
               (case getCookieName e of
                  Inl err \<Rightarrow> Inl err
                | Inr cookieName \<Rightarrow>
                    (case read_property cookieMap cookieName of
                       Missing \<Rightarrow> Inr False
                     | Inherited \<Rightarrow> Inl (TypeError ''substring is not a function'')
                     | Own CTrue \<Rightarrow> Inl (TypeError ''substring is not a function'')
                     | Own (CString s) \<Rightarrow>
                         if s = [] then Inr False
                         else
                           (let signature = take SIGNATURE_DIGEST_LENGTH s;
                                data = utf8_decode (base64_decode (drop SIGNATURE_DIGEST_LENGTH s))
                            in case getSecretKey e of
                                 Inl err \<Rightarrow> Inl err
                               | Inr key \<Rightarrow> verify native rnd key (StringData data) signature)))))"

section \<open>Serializing a Set-Cookie header\<close>

text \<open>
  The options of \<^verbatim>\<open>serializeCookie\<close> are untyped: a field that the code only tests,
  converts, lower-cases or switches on holds any value; \<^verbatim>\<open>domain\<close> and \<^verbatim>\<open>path\<close> hold a
  string or nothing. A Date is its time value in milliseconds, or none for an invalid
  Date.
\<close>

datatype jsnum = NaN | Infinity bool | Finite rat

datatype jsval =
    VUndefined
  | VNull
  | VBool bool
  | VNumber jsnum
  | VString jsstring
  | VDate "int option"
  | VFunction "jsstring \<Rightarrow> error + jsstring"
  | VObject

definition truthy :: "jsval \<Rightarrow> bool" where
  "truthy v =
     (case v of
        VUndefined \<Rightarrow> False
      | VNull \<Rightarrow> False
      | VBool b \<Rightarrow> b
      | VNumber n \<Rightarrow> n \<noteq> NaN \<and> n \<noteq> Finite 0
      | VString s \<Rightarrow> s \<noteq> []
      | _ \<Rightarrow> True)"

record cookie_opts =
  encode_option :: jsval
  maxAge :: jsval
  domain :: "jsstring option"
  path :: "jsstring option"
  expires :: jsval
  httpOnly :: jsval
  secure :: jsval
  partitioned :: jsval
  priority :: jsval
  sameSite :: jsval

text \<open>\<^verbatim>\<open>opts?.field\<close>: without options every field is \<^verbatim>\<open>undefined\<close>.\<close>

definition field :: "(cookie_opts \<Rightarrow> jsval) \<Rightarrow> cookie_opts option \<Rightarrow> jsval" where
  "field f opts = (case opts of None \<Rightarrow> VUndefined | Some os \<Rightarrow> f os)"

definition field_opt :: "(cookie_opts \<Rightarrow> 'a option) \<Rightarrow> cookie_opts option \<Rightarrow> 'a option" where
  "field_opt f opts = (case opts of None \<Rightarrow> None | Some os \<Rightarrow> f os)"

text \<open>
  What the host provides: the number that a string, a function or another object
  converts to, the text of an integer beyond \<open>2\<^sup>5\<^sup>3\<close> (up to there a number that is an
  integer is that integer exactly, and its text is the decimal numeral), and
  \<^verbatim>\<open>toUTCString\<close> of a time value.
\<close>

record host =
  ToNumber :: "jsval \<Rightarrow> jsnum"
  large_integer_text :: "int \<Rightarrow> string"
  toUTCString :: "int \<Rightarrow> string"

text \<open>
  \<^verbatim>\<open>v - 0\<close>: the number that \<open>v\<close> converts to. A Date converts to its time value.
\<close>

definition to_number :: "host \<Rightarrow> jsval \<Rightarrow> jsnum" where
  "to_number h v =
     (case v of
        VUndefined \<Rightarrow> NaN
      | VNull \<Rightarrow> Finite 0
      | VBool b \<Rightarrow> Finite (if b then 1 else 0)
      | VNumber n \<Rightarrow> n
      | VDate None \<Rightarrow> NaN
      | VDate (Some t) \<Rightarrow> Finite (of_int t)
      | _ \<Rightarrow> ToNumber h v)"

function digits :: "nat \<Rightarrow> string" where
  "digits n = (if n < 10 then [char_of (48 + n)] else digits (n div 10) @ [char_of (48 + n mod 10)])"
  by pat_completeness auto
termination
  by (relation "measure id") auto

declare digits.simps [simp del]

definition integer_text :: "host \<Rightarrow> int \<Rightarrow> string" where
  "integer_text h i =
     (if \<bar>i\<bar> \<le> 2 ^ 53 then (if i < 0 then ''-'' @ digits (nat (- i)) else digits (nat i))
      else large_integer_text h i)"

text \<open>The pattern \<^verbatim>\<open>fieldContentRegExp\<close>: one or more of tab, 0x20 to 0x7E, 0x80 to 0xFF.\<close>

definition fieldContent :: "jsstring \<Rightarrow> bool" where
  "fieldContent s \<longleftrightarrow>
     s \<noteq> [] \<and>
     list_all (\<lambda>c. c = 0x09 \<or> (0x20 \<le> unat c \<and> unat c \<le> 0x7E)
                  \<or> (0x80 \<le> unat c \<and> unat c \<le> 0xFF)) s"

text \<open>
  \<^verbatim>\<open>encodeURIComponent\<close>, the default encoder: letters, digits and
  \<^verbatim>\<open>- _ . ! ~ * ' ( )\<close> are kept, every other code point is written as the escaped
  bytes of its UTF-8 form; a surrogate without its partner is a URIError.
\<close>

definition uri_unreserved :: "unit16 \<Rightarrow> bool" where
  "uri_unreserved c \<longleftrightarrow>
     (65 \<le> unat c \<and> unat c \<le> 90) \<or> (97 \<le> unat c \<and> unat c \<le> 122) \<or> is_digit c
       \<or> c \<in> set (lit ''-_.!~*()'') \<or> c = 0x27"

definition upper_hex_digit :: "nat \<Rightarrow> unit16" where
  "upper_hex_digit v = (if v < 10 then of_nat (48 + v) else of_nat (55 + v))"

definition percent_bytes :: "buffer \<Rightarrow> jsstring" where
  "percent_bytes bs =
     concat (map (\<lambda>b. [0x25, upper_hex_digit (unat b div 16), upper_hex_digit (unat b mod 16)]) bs)"

fun encodeURIComponent :: "jsstring \<Rightarrow> error + jsstring" where
  "encodeURIComponent [] = Inr []"
| "encodeURIComponent (c # cs) =
     (if is_low_surrogate c then Inl URIError
      else if is_high_surrogate c then
        (case cs of
           [] \<Rightarrow> Inl URIError
         | d # ds \<Rightarrow>
             if is_low_surrogate d
             then map_sum id ((@) (percent_bytes (utf8_of_codepoint (pair_codepoint c d))))
                    (encodeURIComponent ds)
             else Inl URIError)
      else map_sum id ((@) (if uri_unreserved c then [c]
                            else percent_bytes (utf8_of_codepoint (unat c))))
             (encodeURIComponent cs))"

definition encode :: "jsstring \<Rightarrow> error + jsstring" where
  "encode val = encodeURIComponent val"

text \<open>
  \<^verbatim>\<open>toLowerCase\<close> on the letters A to Z and on the Kelvin sign. No other character
  has a lower-case form made of ASCII letters only, so the comparisons with
  \<^verbatim>\<open>'lax'\<close>, \<^verbatim>\<open>'low'\<close> and the like come out as in the host.
\<close>

definition toLowerCase :: "jsstring \<Rightarrow> jsstring" where
  "toLowerCase s =
     map (\<lambda>c. if 65 \<le> unat c \<and> unat c \<le> 90 then c + 32
               else if c = 0x212A then 0x6B else c) s"

definition and_then :: "error + 'a \<Rightarrow> ('a \<Rightarrow> error + 'b) \<Rightarrow> error + 'b" where
  "and_then m f = (case m of Inl e \<Rightarrow> Inl e | Inr x \<Rightarrow> f x)"

text \<open>The attributes, in the order of the source; each appends to \<open>s\<close> or throws.\<close>

definition maxAge_attribute :: "host \<Rightarrow> jsval \<Rightarrow> jsstring \<Rightarrow> error + jsstring" where
  "maxAge_attribute h m s =
     (case m of
        VUndefined \<Rightarrow> Inr s
      | VNull \<Rightarrow> Inr s
      | _ \<Rightarrow>
          (case to_number h m of
             NaN \<Rightarrow> Inl (TypeError ''option maxAge is invalid'')
           | Infinity b \<Rightarrow> Inl (TypeError ''option maxAge is invalid'')
           | Finite r \<Rightarrow> Inr (s @ lit ''; Max-Age='' @ lit (integer_text h \<lfloor>r\<rfloor>))))"

definition domain_attribute :: "jsstring option \<Rightarrow> jsstring \<Rightarrow> error + jsstring" where
  "domain_attribute d s =
     (case d of
        None \<Rightarrow> Inr s
      | Some v \<Rightarrow>
          if v = [] then Inr s
          else if \<not> fieldContent v then Inl (TypeError ''option domain is invalid'')
          else Inr (s @ lit ''; Domain='' @ v))"

definition path_attribute :: "jsstring option \<Rightarrow> jsstring \<Rightarrow> error + jsstring" where
  "path_attribute p s =
     (case p of
        None \<Rightarrow> Inr s
      | Some v \<Rightarrow>
          if v = [] then Inr s
          else if \<not> fieldContent v then Inl (TypeError ''option path is invalid'')
          else Inr (s @ lit ''; Path='' @ v))"

definition expires_attribute :: "host \<Rightarrow> jsval \<Rightarrow> jsstring \<Rightarrow> error + jsstring" where
  "expires_attribute h v s =
     (if \<not> truthy v then Inr s
      else case v of
             VDate (Some t) \<Rightarrow> Inr (s @ lit ''; Expires='' @ lit (toUTCString h t))
           | _ \<Rightarrow> Inl (TypeError ''option expires is invalid''))"

definition flag_attribute :: "string \<Rightarrow> jsval \<Rightarrow> jsstring \<Rightarrow> jsstring" where
  "flag_attribute text v s = (if truthy v then s @ lit text else s)"

definition priority_attribute :: "jsval \<Rightarrow> jsstring \<Rightarrow> error + jsstring" where
  "priority_attribute v s =
     (if \<not> truthy v then Inr s
      else case v of
             VString x \<Rightarrow>
               (let p = toLowerCase x in
                if p = lit ''low'' then Inr (s @ lit ''; Priority=Low'')
                else if p = lit ''medium'' then Inr (s @ lit ''; Priority=Medium'')
                else if p = lit ''high'' then Inr (s @ lit ''; Priority=High'')
                else Inl (TypeError ''option priority is invalid''))
           | _ \<Rightarrow> Inl (TypeError ''option priority is invalid''))"

text \<open>
  The \<^verbatim>\<open>switch\<close> on \<^verbatim>\<open>sameSite\<close> compares with \<^verbatim>\<open>===\<close>: a truthy boolean is
  \<^verbatim>\<open>true\<close>, a string is compared in lower case, every other value reaches
  \<^verbatim>\<open>default\<close>.
\<close>

definition sameSite_attribute :: "jsval \<Rightarrow> jsstring \<Rightarrow> error + jsstring" where
  "sameSite_attribute v s =
     (if \<not> truthy v then Inr s
      else case v of
             VBool b \<Rightarrow> Inr (s @ lit ''; SameSite=Strict'')
           | VString x \<Rightarrow>
               (let ss = toLowerCase x in
                if ss = lit ''lax'' then Inr (s @ lit ''; SameSite=Lax'')
                else if ss = lit ''strict'' then Inr (s @ lit ''; SameSite=Strict'')
                else if ss = lit ''none'' then Inr (s @ lit ''; SameSite=None'')
                else Inl (TypeError ''option sameSite is invalid''))
           | _ \<Rightarrow> Inl (TypeError ''option sameSite is invalid''))"

definition serializeCookie ::
  "host \<Rightarrow> jsstring \<Rightarrow> jsstring \<Rightarrow> cookie_opts option \<Rightarrow> error + jsstring" where
  "serializeCookie h name val opts =
     and_then
       (if \<not> truthy (field encode_option opts) then Inr encode
        else case field encode_option opts of
               VFunction f \<Rightarrow> Inr f
             | _ \<Rightarrow> Inl (TypeError ''option encode is invalid''))
       (\<lambda>enc.
          if \<not> fieldContent name then Inl (TypeError ''argument name is invalid'')
          else
            and_then (enc val)
              (\<lambda>value.
                 if value \<noteq> [] \<and> \<not> fieldContent value
                 then Inl (TypeError ''argument val is invalid'')
                 else
                   and_then (maxAge_attribute h (field maxAge opts) (name @ lit ''='' @ value))
                  (\<lambda>s. and_then (domain_attribute (field_opt domain opts) s)
                  (\<lambda>s. and_then (path_attribute (field_opt path opts) s)
                  (\<lambda>s. and_then (expires_attribute h (field expires opts) s)
                  (\<lambda>s. and_then
                          (priority_attribute (field priority opts)
                             (flag_attribute ''; Partitioned'' (field partitioned opts)
                               (flag_attribute ''; Secure'' (field secure opts)
                                 (flag_attribute ''; HttpOnly'' (field httpOnly opts) s))))
                  (\<lambda>s. sameSite_attribute (field sameSite opts) s)))))))"

section \<open>Values for examples\<close>

text \<open>
  For a payload whose numbers are natural numbers the host's conversions are the
  decimal numeral and its value. An options object without properties is \<^verbatim>\<open>{}\<close>.
  The examples of \<^verbatim>\<open>serializeCookie\<close> convert no string or object to a number, print
  no integer beyond \<open>2\<^sup>5\<^sup>3\<close> and no Date, so that any host serves for them.
\<close>

definition decimal_value :: "string \<Rightarrow> nat" where
  "decimal_value s = foldl (\<lambda>acc c. acc * 10 + (of_char c - 48)) 0 s"

definition some_host :: host where
  "some_host =
     \<lparr>ToNumber = (\<lambda>v. NaN), large_integer_text = (\<lambda>i. []), toUTCString = (\<lambda>t. [])\<rparr>"

definition no_options :: cookie_opts where
  "no_options =
     \<lparr>encode_option = VUndefined, maxAge = VUndefined, domain = None, path = None,
      expires = VUndefined, httpOnly = VUndefined, secure = VUndefined,
      partitioned = VUndefined, priority = VUndefined, sameSite = VUndefined\<rparr>"

text \<open>
  A string that is a word of lower-case letters up to the case of its letters: every
  code unit is the letter of the word or its capital, 32 below.
\<close>

definition same_letters :: "jsstring \<Rightarrow> jsstring \<Rightarrow> bool" where
  "same_letters x w \<longleftrightarrow> list_all2 (\<lambda>c l. c = l \<or> c + 32 = l) x w"

section \<open>What JSON.parse reads back from a canonical text\<close>

text \<open>
  The canonical text of a value lists the members of every object by ascending key, so
  the value that \<^verbatim>\<open>JSON.parse\<close> builds from it is the value with the members of its
  objects in that order.
\<close>

function canonical :: "'n json \<Rightarrow> 'n json" where
  "canonical JNull = JNull"
| "canonical (JBool b) = JBool b"
| "canonical (JNumber n) = JNumber n"
| "canonical (JString s) = JString s"
| "canonical (JArray vs) = JArray (map canonical vs)"
| "canonical (JObject kvs) =
     JObject (map (\<lambda>kv. (fst kv, canonical (snd kv))) (sort_key fst kvs))"
  by pat_completeness auto
termination
proof (relation "measure size")
  show "wf (measure (size :: 'n json \<Rightarrow> nat))" by simp
next
  fix vs :: "'n json list" and x
  assume "x \<in> set vs"
  then have "size x \<le> size_list size vs" by (simp add: size_list_estimation')
  then show "(x, JArray vs) \<in> measure size" by simp
next
  fix kvs :: "(jsstring \<times> 'n json) list" and x
  assume "x \<in> set (sort_key fst kvs)"
  then have "x \<in> set kvs" by simp
  then have "size_prod (\<lambda>_. 0) size x \<le> size_list (size_prod (\<lambda>_. 0) size) kvs"
    by (simp add: size_list_estimation')
  then show "(snd x, JObject kvs) \<in> measure size"
    by (cases x) simp
qed

text \<open>
  An object of the host language holds every key once.
\<close>

function proper :: "'n json \<Rightarrow> bool" where
  "proper JNull \<longleftrightarrow> True"
| "proper (JBool b) \<longleftrightarrow> True"
| "proper (JNumber n) \<longleftrightarrow> True"
| "proper (JString s) \<longleftrightarrow> True"
| "proper (JArray vs) \<longleftrightarrow> list_all proper vs"
| "proper (JObject kvs) \<longleftrightarrow> distinct (map fst kvs) \<and> list_all (\<lambda>kv. proper (snd kv)) kvs"
  by pat_completeness auto
termination
proof (relation "measure size")
  show "wf (measure (size :: 'n json \<Rightarrow> nat))" by simp
next
  fix vs :: "'n json list" and x
  assume "x \<in> set vs"
  then have "size x \<le> size_list size vs" by (simp add: size_list_estimation')
  then show "(x, JArray vs) \<in> measure size" by simp
next
  fix kvs :: "(jsstring \<times> 'n json) list" and x
  assume "x \<in> set kvs"
  then have "size_prod (\<lambda>_. 0) size x \<le> size_list (size_prod (\<lambda>_. 0) size) kvs"
    by (simp add: size_list_estimation')
  then show "(snd x, JObject kvs) \<in> measure size"
    by (cases x) simp
qed

text \<open>
  The canonical text of a value whose strings are well-formed Unicode, as a total
  function, and the values that have only such strings.
\<close>

function canonical_text :: "('n \<Rightarrow> string) \<Rightarrow> 'n json \<Rightarrow> jsstring" where
  "canonical_text num JNull = lit ''null''"
| "canonical_text num (JBool b) = (if b then lit ''true'' else lit ''false'')"
| "canonical_text num (JNumber n) = lit (num n)"
| "canonical_text num (JString s) = QuoteJSONString s"
| "canonical_text num (JArray vs) =
     lit ''['' @ join (lit '','') (map (canonical_text num) vs) @ lit '']''"
| "canonical_text num (JObject kvs) =
     lit ''{'' @
     join (lit '','')
       (map (\<lambda>kv. QuoteJSONString (fst kv) @ lit '':'' @ canonical_text num (snd kv))
          (sort_key fst kvs))
     @ lit ''}''"
  by pat_completeness auto
termination
proof (relation "measure (\<lambda>(num, v). size v)")
  show "wf (measure (\<lambda>(num :: 'n \<Rightarrow> string, v). size v))" by simp
next
  fix num :: "'n \<Rightarrow> string" and vs :: "'n json list" and x
  assume "x \<in> set vs"
  then have "size x \<le> size_list size vs" by (simp add: size_list_estimation')
  then show "((num, x), (num, JArray vs)) \<in> measure (\<lambda>(num, v). size v)" by simp
next
  fix num :: "'n \<Rightarrow> string" and kvs :: "(jsstring \<times> 'n json) list" and x
  assume "x \<in> set (sort_key fst kvs)"
  then have "x \<in> set kvs" by simp
  then have "size_prod (\<lambda>_. 0) size x \<le> size_list (size_prod (\<lambda>_. 0) size) kvs"
    by (simp add: size_list_estimation')
  then show "((num, snd x), (num, JObject kvs)) \<in> measure (\<lambda>(num, v). size v)"
    by (cases x) simp
qed

function unicode_strings :: "'n json \<Rightarrow> bool" where
  "unicode_strings JNull \<longleftrightarrow> True"
| "unicode_strings (JBool b) \<longleftrightarrow> True"
| "unicode_strings (JNumber n) \<longleftrightarrow> True"
| "unicode_strings (JString s) \<longleftrightarrow> well_formed s"
| "unicode_strings (JArray vs) \<longleftrightarrow> list_all unicode_strings vs"
| "unicode_strings (JObject kvs) \<longleftrightarrow>
     list_all (\<lambda>kv. well_formed (fst kv) \<and> unicode_strings (snd kv)) kvs"
  by pat_completeness auto
termination
proof (relation "measure size")
  show "wf (measure (size :: 'n json \<Rightarrow> nat))" by simp
next
  fix vs :: "'n json list" and x
  assume "x \<in> set vs"
  then have "size x \<le> size_list size vs" by (simp add: size_list_estimation')
  then show "(x, JArray vs) \<in> measure size" by simp
next
  fix kvs :: "(jsstring \<times> 'n json) list" and x
  assume "x \<in> set kvs"
  then have "size_prod (\<lambda>_. 0) size x \<le> size_list (size_prod (\<lambda>_. 0) size) kvs"
    by (simp add: size_list_estimation')
  then show "(snd x, JObject kvs) \<in> measure size"
    by (cases x) simp
qed

text \<open>
  The code units that a JSON value can begin with: a brace, a bracket, a quote, a
  minus sign, a digit, and the first letters of \<^verbatim>\<open>true\<close>, \<^verbatim>\<open>false\<close> and \<^verbatim>\<open>null\<close>.
\<close>

definition begins_value :: "unit16 \<Rightarrow> bool" where
  "begins_value c \<longleftrightarrow>
     c = 0x7B \<or> c = 0x5B \<or> c = 0x22 \<or> c = 0x2D \<or> is_digit c
       \<or> c = 0x74 \<or> c = 0x66 \<or> c = 0x6E"

text \<open>
  The text of a number is what the host language prints for it; the round trip needs
  that this text follows the JSON grammar of a number and reads back as the same number.
\<close>

definition numbers_ok :: "('n \<Rightarrow> string) \<Rightarrow> (string \<Rightarrow> 'n) \<Rightarrow> bool" where
  "numbers_ok num numOf \<longleftrightarrow> (\<forall>n. valid_number (lit (num n)) \<and> numOf (num n) = n)"

definition number_texts :: "('n \<Rightarrow> string) \<Rightarrow> bool" where
  "number_texts num \<longleftrightarrow>
     (\<forall>n. valid_number (lit (num n)) \<and> list_all is_word_char (lit (num n)))"

text \<open>
  The tokens of the canonical text of a value, and the condition on the text after a
  word for the word to end there.
\<close>

function toks :: "('n \<Rightarrow> string) \<Rightarrow> 'n json \<Rightarrow> token list" where
  "toks num JNull = [TNull]"
| "toks num (JBool b) = [if b then TTrue else TFalse]"
| "toks num (JNumber n) = [TNumber (lit (num n))]"
| "toks num (JString s) = [TString s]"
| "toks num (JArray vs) = [LBracket] @ join [Comma] (map (toks num) vs) @ [RBracket]"
| "toks num (JObject kvs) =
     [LBrace] @
     join [Comma] (map (\<lambda>kv. [TString (fst kv), Colon] @ toks num (snd kv)) (sort_key fst kvs))
     @ [RBrace]"
  by pat_completeness auto
termination
proof (relation "measure (\<lambda>(num, v). size v)")
  show "wf (measure (\<lambda>(num :: 'n \<Rightarrow> string, v). size v))" by simp
next
  fix num :: "'n \<Rightarrow> string" and vs :: "'n json list" and x
  assume "x \<in> set vs"
  then have "size x \<le> size_list size vs" by (simp add: size_list_estimation')
  then show "((num, x), (num, JArray vs)) \<in> measure (\<lambda>(num, v). size v)" by simp
next
  fix num :: "'n \<Rightarrow> string" and kvs :: "(jsstring \<times> 'n json) list" and x
  assume "x \<in> set (sort_key fst kvs)"
  then have "x \<in> set kvs" by simp
  then have "size_prod (\<lambda>_. 0) size x \<le> size_list (size_prod (\<lambda>_. 0) size) kvs"
    by (simp add: size_list_estimation')
  then show "((num, snd x), (num, JObject kvs)) \<in> measure (\<lambda>(num, v). size v)"
    by (cases x) simp
qed

definition boundary :: "jsstring \<Rightarrow> bool" where
  "boundary rest = (case rest of [] \<Rightarrow> True | c # cs \<Rightarrow> \<not> is_word_char c)"

definition prepend :: "token list \<Rightarrow> token list option \<Rightarrow> token list option" where
  "prepend ts r = map_option ((@) ts) r"

section \<open>Verified properties\<close>

subsection \<open>Digests, encodings and comparison\<close>

lemma length_sha1: "length (sha1 msg) = 20"
  by (simp add: sha1_def be_bytes_def split: prod.splits)

lemma length_hmac_sha1: "length (hmac Sha1 k m) = 20"
  by (simp add: hmac_def hash_def Let_def length_sha1)

lemma b64code_less: "b64code v < 128"
  by (auto simp: b64code_def)

lemma unat_b64char: "unat (b64char v) = b64code v"
proof -
  have "b64code v < 2 ^ 16" using b64code_less [of v] by simp
  then show ?thesis by (simp add: b64char_def unat_of_nat)
qed

lemma b64char_not_pad: "b64char v \<noteq> 0x3D"
proof
  assume "b64char v = 0x3D"
  then have "unat (b64char v) = 61" by simp
  then show False by (simp add: unat_b64char b64code_def split: if_splits)
qed

lemma filter_base64_length:
  "length (filter (\<lambda>c. c \<noteq> 0x3D) (base64_encode bs)) = (4 * length bs + 2) div 3"
  by (induction bs rule: base64_encode.induct) (simp_all add: Let_def b64char_not_pad)

lemma length_replace_unsafe:
  "length (replace_unsafe s) = length (filter (\<lambda>c. c \<noteq> 0x3D) s)"
  by (induction s) (simp_all add: replace_unsafe_def)

lemma set_replace_unsafe:
  "set (replace_unsafe s) \<inter> {0x2F, 0x2B, 0x3D} = {}"
  by (induction s) (simp_all add: replace_unsafe_def)

lemma length_sign_default: "length (sign d key None) = 27"
  by (simp add: sign_def digest_text_def length_replace_unsafe filter_base64_length length_hmac_sha1)


lemma scan_from_iff:
  "length a = length b \<Longrightarrow> scan_from i a b \<longleftrightarrow> (\<forall>j. i \<le> j \<and> j < length a \<longrightarrow> a ! j = b ! j)"
proof (induction i a b rule: scan_from.induct)
  case (1 i a b)
  show ?case
  proof (cases "i < length a")
    case False
    then show ?thesis by (auto simp: scan_from.simps [of i a b])
  next
    case True
    show ?thesis
    proof (cases "a ! i = b ! i")
      case False
      with True 1(2) show ?thesis by (auto simp: scan_from.simps [of i a b])
    next
      case eq: True
      have "scan_from i a b = scan_from (Suc i) a b"
        using True eq 1(2) by (simp add: scan_from.simps [of i a b])
      also have "\<dots> \<longleftrightarrow> (\<forall>j. Suc i \<le> j \<and> j < length a \<longrightarrow> a ! j = b ! j)"
        using 1(1) True eq 1(2) by simp
      also have "\<dots> \<longleftrightarrow> (\<forall>j. i \<le> j \<and> j < length a \<longrightarrow> a ! j = b ! j)"
        using eq by (metis Suc_leI le_neq_implies_less not_less_eq_eq le_SucI)
      finally show ?thesis .
    qed
  qed
qed

lemma bufferEqual_eq: "bufferEqual native a b = Inr (a = b)"
  by (auto simp: bufferEqual_def timingSafeEqual_def scan_from_iff list_eq_iff_nth_eq)

lemma timeSafeCompare_eq: "timeSafeCompare native rnd a b = Inr (a = b)"
  by (auto simp: timeSafeCompare_def Let_def bufferEqual_eq)

subsection \<open>Base64 decoding inverts base64 encoding\<close>

lemma div_unique_nat: "r < d \<Longrightarrow> (q * d + r) div d = (q::nat)"
  by simp

lemma mod_unique_nat: "r < d \<Longrightarrow> (q * d + r) mod d = (r::nat)"
  by simp

lemma regroup1:
  fixes a :: nat
  assumes "a < 256"
  shows "a div 4 < 64" and "a mod 4 * 16 < 64" and "a div 4 * 4 + a mod 4 * 16 div 16 = a"
  using assms by simp_all

lemma regroup3:
  fixes a b c :: nat
  assumes "a < 256" "b < 256" "c < 256"
  defines "n \<equiv> (a * 256 + b) * 256 + c"
  shows "n div 262144 < 64"
    and "n div 262144 * 4 + n div 4096 mod 64 div 16 = a"
    and "n div 4096 mod 64 mod 16 * 16 + n div 64 mod 64 div 4 = b"
    and "n div 64 mod 64 mod 4 * 64 + n mod 64 = c"
proof -
  define a1 a0 b1 b0 c1 c0 where "a1 = a div 4" and "a0 = a mod 4" and "b1 = b div 16"
    and "b0 = b mod 16" and "c1 = c div 64" and "c0 = c mod 64"
  have a: "a = a1 * 4 + a0" and b: "b = b1 * 16 + b0" and c: "c = c1 * 64 + c0"
    by (simp_all add: a1_def a0_def b1_def b0_def c1_def c0_def)
  have bounds: "a0 < 4" "b0 < 16" "c0 < 64" "a1 < 64" "b1 < 16" "c1 < 4"
    using assms(1-3) by (simp_all add: a1_def a0_def b1_def b0_def c1_def c0_def)
  have n1: "n = a1 * 262144 + (a0 * 65536 + b * 256 + c)" by (simp add: n_def a)
  have n2: "n = (a * 16 + b1) * 4096 + (b0 * 256 + c)" by (simp add: n_def b)
  have n3: "n = ((a * 256 + b) * 4 + c1) * 64 + c0" by (simp add: n_def c)
  have d1: "n div 262144 = a1"
    unfolding n1 using bounds assms(2,3) by (intro div_unique_nat) simp
  have d2: "n div 4096 = a * 16 + b1"
    unfolding n2 using bounds assms(3) by (intro div_unique_nat) simp
  have d3: "n div 64 = (a * 256 + b) * 4 + c1"
    unfolding n3 using bounds by (intro div_unique_nat) simp
  have m3: "n mod 64 = c0"
    unfolding n3 using bounds by (intro mod_unique_nat) simp
  have e2: "(a * 16 + b1) mod 64 = a0 * 16 + b1"
  proof -
    have "a * 16 + b1 = a1 * 64 + (a0 * 16 + b1)" by (simp add: a)
    then show ?thesis using bounds by (simp only: mod_unique_nat)
  qed
  have e3: "((a * 256 + b) * 4 + c1) mod 64 = b0 * 4 + c1"
  proof -
    have "(a * 256 + b) * 4 + c1 = (a * 16 + b1) * 64 + (b0 * 4 + c1)" by (simp add: b)
    then show ?thesis using bounds by (simp only: mod_unique_nat)
  qed
  have f1: "(a0 * 16 + b1) div 16 = a0" and f2: "(a0 * 16 + b1) mod 16 = b1"
    and f3: "(b0 * 4 + c1) div 4 = b0" and f4: "(b0 * 4 + c1) mod 4 = c1"
    using bounds by simp_all
  show "n div 262144 < 64" using d1 bounds by simp
  show "n div 262144 * 4 + n div 4096 mod 64 div 16 = a"
    unfolding d1 d2 e2 f1 by (simp add: a)
  show "n div 4096 mod 64 mod 16 * 16 + n div 64 mod 64 div 4 = b"
    unfolding d2 d3 e2 e3 f2 f3 by (simp add: b)
  show "n div 64 mod 64 mod 4 * 64 + n mod 64 = c"
    unfolding d3 e3 m3 f4 by (simp add: c)
qed

lemma regroup2:
  fixes a b :: nat
  assumes "a < 256" "b < 256"
  defines "n \<equiv> a * 256 + b"
  shows "n div 1024 < 64"
    and "n mod 16 * 4 < 64"
    and "n div 1024 * 4 + n div 16 mod 64 div 16 = a"
    and "n div 16 mod 64 mod 16 * 16 + n mod 16 * 4 div 4 = b"
proof -
  define a1 a0 b1 b0 where "a1 = a div 4" and "a0 = a mod 4" and "b1 = b div 16"
    and "b0 = b mod 16"
  have a: "a = a1 * 4 + a0" and b: "b = b1 * 16 + b0"
    by (simp_all add: a1_def a0_def b1_def b0_def)
  have bounds: "a0 < 4" "b0 < 16" "a1 < 64" "b1 < 16"
    using assms(1,2) by (simp_all add: a1_def a0_def b1_def b0_def)
  have n1: "n = a1 * 1024 + (a0 * 256 + b)" by (simp add: n_def a)
  have n2: "n = (a * 16 + b1) * 16 + b0" by (simp add: n_def b)
  have d1: "n div 1024 = a1"
    unfolding n1 using bounds assms(2) by (intro div_unique_nat) simp
  have d2: "n div 16 = a * 16 + b1"
    unfolding n2 using bounds by (intro div_unique_nat) simp
  have m2: "n mod 16 = b0"
    unfolding n2 using bounds by (intro mod_unique_nat) simp
  have e2: "(a * 16 + b1) mod 64 = a0 * 16 + b1"
  proof -
    have "a * 16 + b1 = a1 * 64 + (a0 * 16 + b1)" by (simp add: a)
    then show ?thesis using bounds by (simp only: mod_unique_nat)
  qed
  have f1: "(a0 * 16 + b1) div 16 = a0" and f2: "(a0 * 16 + b1) mod 16 = b1"
    using bounds by simp_all
  show "n div 1024 < 64" using d1 bounds by simp
  show "n mod 16 * 4 < 64" using m2 bounds by simp
  show "n div 1024 * 4 + n div 16 mod 64 div 16 = a"
    unfolding d1 d2 e2 f1 by (simp add: a)
  show "n div 16 mod 64 mod 16 * 16 + n mod 16 * 4 div 4 = b"
    unfolding d2 e2 m2 f2 by (simp add: b)
qed

lemma low_byte_b64char: "low_byte (b64char v) = b64code v"
  using b64code_less [of v] by (simp add: low_byte_def unat_b64char)

lemma low_byte_b64char_not_pad: "low_byte (b64char v) \<noteq> 61"
  by (auto simp: low_byte_b64char b64code_def)

lemma b64val_b64char: "v < 64 \<Longrightarrow> b64val (b64char v) = Some v"
  by (auto simp: b64val_def low_byte_b64char b64code_def Let_def)

lemma sextets_cons: "v < 64 \<Longrightarrow> base64_sextets (b64char v # s) = v # base64_sextets s"
  by (simp add: base64_sextets_def low_byte_b64char_not_pad b64val_b64char
      List.map_filter_simps)

lemma sextets_pad: "base64_sextets (0x3D # s) = []"
  by (simp add: base64_sextets_def low_byte_def List.map_filter_simps)

lemma sextets_nil: "base64_sextets [] = []"
  by (simp add: base64_sextets_def List.map_filter_simps)

lemma unat_byte_less: "unat (a :: byte) < 256"
  using unsigned_less [of a, where ?'a = nat] by simp

lemma decode_group4:
  assumes "s1 < 64" "s2 < 64" "s3 < 64" "s4 < 64"
  shows "base64_decode ([b64char s1, b64char s2, b64char s3, b64char s4] @ t) =
           [of_nat (s1 * 4 + s2 div 16), of_nat (s2 mod 16 * 16 + s3 div 4),
            of_nat (s3 mod 4 * 64 + s4)] @ base64_decode t"
  using assms by (simp add: base64_decode_def sextets_cons)

lemma decode_group3:
  assumes "s1 < 64" "s2 < 64" "s3 < 64"
  shows "base64_decode [b64char s1, b64char s2, b64char s3, 0x3D] =
           [of_nat (s1 * 4 + s2 div 16), of_nat (s2 mod 16 * 16 + s3 div 4)]"
  using assms by (simp add: base64_decode_def sextets_cons sextets_pad)

lemma decode_group2:
  assumes "s1 < 64" "s2 < 64"
  shows "base64_decode [b64char s1, b64char s2, 0x3D, 0x3D] = [of_nat (s1 * 4 + s2 div 16)]"
  using assms by (simp add: base64_decode_def sextets_cons sextets_pad)

lemma base64_roundtrip: "base64_decode (base64_encode bs) = bs"
proof (induction bs rule: base64_encode.induct)
  case 1
  show ?case by (simp add: base64_decode_def sextets_nil)
next
  case (2 a)
  define n where "n = unat a"
  have r: "n div 4 < 64" "n mod 4 * 16 < 64" "n div 4 * 4 + n mod 4 * 16 div 16 = n"
    using regroup1 [OF unat_byte_less [of a]] by (simp_all only: n_def)
  have "base64_encode [a] = [b64char (n div 4), b64char (n mod 4 * 16), 0x3D, 0x3D]"
    by (simp add: n_def Let_def)
  then have "base64_decode (base64_encode [a]) = [of_nat (n div 4 * 4 + n mod 4 * 16 div 16)]"
    by (simp only: decode_group2 [OF r(1,2)])
  then show ?case by (simp only: r(3)) (simp add: n_def)
next
  case (3 a b)
  define n where "n = unat a * 256 + unat b"
  have r: "n div 1024 < 64" "n mod 16 * 4 < 64"
      "n div 1024 * 4 + n div 16 mod 64 div 16 = unat a"
      "n div 16 mod 64 mod 16 * 16 + n mod 16 * 4 div 4 = unat b"
    using regroup2 [OF unat_byte_less [of a] unat_byte_less [of b]] by (simp_all only: n_def)
  have m: "n div 16 mod 64 < 64" by simp
  have "base64_encode [a, b] =
          [b64char (n div 1024), b64char (n div 16 mod 64), b64char (n mod 16 * 4), 0x3D]"
    by (simp add: n_def Let_def)
  then have "base64_decode (base64_encode [a, b]) =
          [of_nat (n div 1024 * 4 + n div 16 mod 64 div 16),
           of_nat (n div 16 mod 64 mod 16 * 16 + n mod 16 * 4 div 4)]"
    by (simp only: decode_group3 [OF r(1) m r(2)])
  then show ?case by (simp only: r(3,4)) simp
next
  case (4 a b c rest)
  define n where "n = (unat a * 256 + unat b) * 256 + unat c"
  have r: "n div 262144 < 64"
      "n div 262144 * 4 + n div 4096 mod 64 div 16 = unat a"
      "n div 4096 mod 64 mod 16 * 16 + n div 64 mod 64 div 4 = unat b"
      "n div 64 mod 64 mod 4 * 64 + n mod 64 = unat c"
    using regroup3 [OF unat_byte_less [of a] unat_byte_less [of b] unat_byte_less [of c]]
    by (simp_all only: n_def)
  have m: "n div 4096 mod 64 < 64" "n div 64 mod 64 < 64" "n mod 64 < 64" by simp_all
  have "base64_encode (a # b # c # rest) =
          [b64char (n div 262144), b64char (n div 4096 mod 64), b64char (n div 64 mod 64),
           b64char (n mod 64)] @ base64_encode rest"
    by (simp add: n_def Let_def)
  then have "base64_decode (base64_encode (a # b # c # rest)) =
          [of_nat (n div 262144 * 4 + n div 4096 mod 64 div 16),
           of_nat (n div 4096 mod 64 mod 16 * 16 + n div 64 mod 64 div 4),
           of_nat (n div 64 mod 64 mod 4 * 64 + n mod 64)] @ base64_decode (base64_encode rest)"
    by (simp only: decode_group4 [OF r(1) m])
  then show ?case by (simp only: r(2,3,4) "4.IH") simp
qed

subsection \<open>UTF-8 decoding inverts UTF-8 encoding on well-formed strings\<close>

lemma unat_of_nat_byte: "n < 256 \<Longrightarrow> unat (of_nat n :: byte) = n"
  by (simp add: unat_of_nat)

lemma unat_unit16_less: "unat (c :: unit16) < 65536"
  using unsigned_less [of c, where ?'a = nat] by simp

lemma of_nat_unat_unit16: "(of_nat (unat c) :: unit16) = c"
  by simp

lemma decode1:
  assumes "x < 0x80"
  shows "utf8_decode (of_nat x # rest) = of_nat x # utf8_decode rest"
  using assms by (simp add: unat_of_nat_byte)

lemma decode2:
  assumes "0xC2 \<le> x" "x < 0xE0" "0x80 \<le> y" "y < 0xC0"
  shows "utf8_decode (of_nat x # of_nat y # rest) =
           of_nat ((x - 0xC0) * 64 + (y - 0x80)) # utf8_decode rest"
  using assms by (simp add: unat_of_nat_byte is_cont_def)

lemma decode3:
  assumes "0xE0 \<le> x" "x < 0xF0" "second_ok x y" "y < 256" "0x80 \<le> z" "z < 0xC0"
  shows "utf8_decode (of_nat x # of_nat y # of_nat z # rest) =
           of_nat (((x - 0xE0) * 64 + (y - 0x80)) * 64 + (z - 0x80)) # utf8_decode rest"
  using assms by (simp add: unat_of_nat_byte is_cont_def)

lemma decode4:
  assumes "0xF0 \<le> x" "x < 0xF5" "second_ok x y" "y < 256" "0x80 \<le> z" "z < 0xC0"
    "0x80 \<le> w" "w < 0xC0"
  shows "utf8_decode (of_nat x # of_nat y # of_nat z # of_nat w # rest) =
           units_of_codepoint ((((x - 0xF0) * 64 + (y - 0x80)) * 64 + (z - 0x80)) * 64 + (w - 0x80))
             @ utf8_decode rest"
  using assms by (simp add: unat_of_nat_byte is_cont_def)


lemma arith2:
  fixes n :: nat
  assumes "0x80 \<le> n" "n < 0x800"
  shows "0xC2 \<le> 0xC0 + n div 64" "0xC0 + n div 64 < 0xE0"
    "(0xC0 + n div 64 - 0xC0) * 64 + (0x80 + n mod 64 - 0x80) = n"
  using assms by simp_all

lemma arith3:
  fixes n :: nat
  assumes "0x800 \<le> n" "n < 0x10000"
  shows "0xE0 + n div 4096 < 0xF0"
    "((0xE0 + n div 4096 - 0xE0) * 64 + (0x80 + n div 64 mod 64 - 0x80)) * 64
       + (0x80 + n mod 64 - 0x80) = n"
    "0xE0 + n div 4096 = 0xE0 \<Longrightarrow> 0xA0 \<le> 0x80 + n div 64 mod 64"
    "0xE0 + n div 4096 = 0xED \<Longrightarrow> n < 0xD800 \<Longrightarrow> 0x80 + n div 64 mod 64 < 0xA0"
proof -
  define m where "m = n div 64"
  have q: "n div 4096 = m div 64" by (simp add: m_def div_mult2_eq)
  have m: "32 \<le> m" "m < 1024" using assms by (simp_all add: m_def less_mult_imp_div_less)
  have n: "m * 64 + n mod 64 = n" by (simp add: m_def)
  have mm: "m div 64 * 64 + m mod 64 = m" by simp
  show "0xE0 + n div 4096 < 0xF0" using m by (simp add: q less_mult_imp_div_less)
  have "((m div 64) * 64 + m mod 64) * 64 + n mod 64 = n" by (simp only: mm n)
  then show "((0xE0 + n div 4096 - 0xE0) * 64 + (0x80 + n div 64 mod 64 - 0x80)) * 64
       + (0x80 + n mod 64 - 0x80) = n"
    by (simp add: q m_def)
  show "0xA0 \<le> 0x80 + n div 64 mod 64" if "0xE0 + n div 4096 = 0xE0"
  proof -
    from that have "m div 64 = 0" by (simp add: q)
    then have "m mod 64 = m" using mm by simp
    then show ?thesis using m by (simp add: m_def)
  qed
  show "0x80 + n div 64 mod 64 < 0xA0" if "0xE0 + n div 4096 = 0xED" "n < 0xD800"
  proof -
    from that have "m div 64 = 13" by (simp add: q)
    moreover have "m < 864" using that(2) by (simp add: m_def less_mult_imp_div_less)
    ultimately have "m mod 64 < 32" using mm by linarith
    then show ?thesis by (simp add: m_def)
  qed
qed

lemma arith4:
  fixes n :: nat
  assumes "0x10000 \<le> n" "n < 0x110000"
  shows "0xF0 + n div 262144 < 0xF5"
    "(((0xF0 + n div 262144 - 0xF0) * 64 + (0x80 + n div 4096 mod 64 - 0x80)) * 64
        + (0x80 + n div 64 mod 64 - 0x80)) * 64 + (0x80 + n mod 64 - 0x80) = n"
    "0xF0 + n div 262144 = 0xF0 \<Longrightarrow> 0x90 \<le> 0x80 + n div 4096 mod 64"
    "0xF0 + n div 262144 = 0xF4 \<Longrightarrow> 0x80 + n div 4096 mod 64 < 0x90"
proof -
  define m p where "m = n div 64" and "p = n div 4096"
  have pm: "p = m div 64" by (simp add: m_def p_def div_mult2_eq)
  have q: "n div 262144 = p div 64" by (simp add: p_def div_mult2_eq)
  have p: "16 \<le> p" "p < 272" using assms by (simp_all add: p_def less_mult_imp_div_less)
  have n: "m * 64 + n mod 64 = n" by (simp add: m_def)
  have mm: "p * 64 + m mod 64 = m" by (simp add: pm)
  have pp: "p div 64 * 64 + p mod 64 = p" by simp
  show "0xF0 + n div 262144 < 0xF5" using p by (simp add: q less_mult_imp_div_less)
  have "(((p div 64) * 64 + p mod 64) * 64 + m mod 64) * 64 + n mod 64 = n"
    by (simp only: pp mm n)
  then show "(((0xF0 + n div 262144 - 0xF0) * 64 + (0x80 + n div 4096 mod 64 - 0x80)) * 64
        + (0x80 + n div 64 mod 64 - 0x80)) * 64 + (0x80 + n mod 64 - 0x80) = n"
    by (simp add: q m_def p_def)
  show "0x90 \<le> 0x80 + n div 4096 mod 64" if "0xF0 + n div 262144 = 0xF0"
  proof -
    from that have "p div 64 = 0" by (simp add: q)
    then have "p mod 64 = p" using pp by simp
    then show ?thesis using p by (simp add: p_def)
  qed
  show "0x80 + n div 4096 mod 64 < 0x90" if "0xF0 + n div 262144 = 0xF4"
  proof -
    from that have "p div 64 = 4" by (simp add: q)
    then have "p mod 64 < 16" using pp p by linarith
    then show ?thesis by (simp add: p_def)
  qed
qed

lemma decode_unit:
  assumes "\<not> is_high_surrogate c" "\<not> is_low_surrogate c"
  shows "utf8_decode (utf8_of_unit c @ rest) = c # utf8_decode rest"
proof -
  define n where "n = unat c"
  have c: "of_nat n = c" by (simp add: n_def)
  have n64: "n < 0x10000" using unat_unit16_less [of c] by (simp add: n_def)
  have u: "utf8_of_unit c = utf8_of_codepoint n"
    using assms by (simp add: utf8_of_unit_def n_def)
  consider "n < 0x80" | "0x80 \<le> n" "n < 0x800" | "0x800 \<le> n" by linarith
  then show ?thesis
  proof cases
    case 1
    then show ?thesis using decode1 [of n rest] by (simp add: u utf8_of_codepoint_def c)
  next
    case 2
    have y: "0x80 \<le> 0x80 + n mod 64" "0x80 + n mod 64 < 0xC0" by simp_all
    have "utf8_decode (of_nat (0xC0 + n div 64) # of_nat (0x80 + n mod 64) # rest) =
            of_nat ((0xC0 + n div 64 - 0xC0) * 64 + (0x80 + n mod 64 - 0x80)) # utf8_decode rest"
      using arith2(1,2) [OF 2] y by (rule decode2)
    then show ?thesis using 2 by (simp only: arith2(3) [OF 2] c) (simp add: u utf8_of_codepoint_def)
  next
    case 3
    let ?x = "0xE0 + n div 4096" and ?y = "0x80 + n div 64 mod 64" and ?z = "0x80 + n mod 64"
    have z: "0x80 \<le> ?z" "?z < 0xC0" "?y < 256" "0xE0 \<le> ?x" by simp_all
    have ns: "n < 0xD800 \<or> 0xE000 \<le> n"
      using assms by (auto simp: is_high_surrogate_def is_low_surrogate_def n_def)
    have ok: "second_ok ?x ?y"
    proof -
      have "?x = 0xED \<Longrightarrow> n < 0xD800"
      proof -
        assume "?x = 0xED"
        then have "n div 4096 = 13" by simp
        then have "n < 0xE000" by simp
        with ns show ?thesis by simp
      qed
      then show ?thesis
        using arith3(1,3,4) [OF 3 n64] by (auto simp: second_ok_def is_cont_def)
    qed
    have "utf8_decode (of_nat ?x # of_nat ?y # of_nat ?z # rest) =
            of_nat (((?x - 0xE0) * 64 + (?y - 0x80)) * 64 + (?z - 0x80)) # utf8_decode rest"
      using z(4) arith3(1) [OF 3 n64] ok z(3) z(1,2) by (rule decode3)
    then show ?thesis
      using 3 n64 by (simp only: arith3(2) [OF 3 n64] c) (simp add: u utf8_of_codepoint_def)
  qed
qed


lemma decode_pair:
  assumes "is_high_surrogate c" "is_low_surrogate d"
  shows "utf8_decode (utf8_of_codepoint (pair_codepoint c d) @ rest) = c # d # utf8_decode rest"
proof -
  define h l where "h = unat c - 0xD800" and "l = unat d - 0xDC00"
  define n where "n = pair_codepoint c d"
  have hl: "h < 0x400" "l < 0x400" "0xD800 + h = unat c" "0xDC00 + l = unat d"
    using assms by (auto simp: h_def l_def is_high_surrogate_def is_low_surrogate_def)
  have n: "n = 0x10000 + (h * 0x400 + l)" by (simp add: n_def pair_codepoint_def h_def l_def)
  have r: "0x10000 \<le> n" "n < 0x110000" using hl(1,2) by (simp_all add: n)
  have "(n - 0x10000) div 0x400 = h" "(n - 0x10000) mod 0x400 = l"
    using hl(2) by (simp_all add: n)
  then have units: "units_of_codepoint n = [c, d]"
    using r(1) by (simp add: units_of_codepoint_def hl(3,4))
  let ?x = "0xF0 + n div 262144" and ?y = "0x80 + n div 4096 mod 64"
    and ?z = "0x80 + n div 64 mod 64" and ?w = "0x80 + n mod 64"
  have z: "0xF0 \<le> ?x" "?y < 256" "0x80 \<le> ?z" "?z < 0xC0" "0x80 \<le> ?w" "?w < 0xC0"
    by simp_all
  have ok: "second_ok ?x ?y"
    using arith4(1,3,4) [OF r] by (auto simp: second_ok_def is_cont_def)
  have "utf8_decode (of_nat ?x # of_nat ?y # of_nat ?z # of_nat ?w # rest) =
          units_of_codepoint ((((?x - 0xF0) * 64 + (?y - 0x80)) * 64 + (?z - 0x80)) * 64
            + (?w - 0x80)) @ utf8_decode rest"
    using z(1) arith4(1) [OF r] ok z(2-6) by (rule decode4)
  then have "utf8_decode (of_nat ?x # of_nat ?y # of_nat ?z # of_nat ?w # rest) =
          [c, d] @ utf8_decode rest"
    by (simp only: arith4(2) [OF r] units)
  then show ?thesis using r by (simp add: utf8_of_codepoint_def n_def [symmetric])
qed

lemma utf8_roundtrip: "well_formed s \<Longrightarrow> utf8_decode (utf8_encode s) = s"
proof (induction s rule: utf8_encode.induct)
  case 1
  show ?case by simp
next
  case (2 c)
  then show ?case using decode_unit [of c "[]"] by simp
next
  case (3 c d cs)
  show ?case
  proof (cases "is_high_surrogate c")
    case True
    with "3.prems" have d: "is_low_surrogate d" and wf: "well_formed cs" by simp_all
    then show ?thesis using True "3.IH"(1) decode_pair [of c d "utf8_encode cs"] by simp
  next
    case False
    with "3.prems" have c: "\<not> is_low_surrogate c" and wf: "well_formed (d # cs)" by simp_all
    then show ?thesis
      using False "3.IH"(2) decode_unit [of c "utf8_encode (d # cs)"] by simp
  qed
qed

subsection \<open>Canonical JSON text is well formed\<close>

lemma well_formed_cons: "plain_unit c \<Longrightarrow> well_formed s \<Longrightarrow> well_formed (c # s)"
  by (cases s) (simp_all add: plain_unit_def)

lemma well_formed_plain: "list_all plain_unit s \<Longrightarrow> well_formed s"
  by (induction s) (simp_all add: well_formed_cons)

lemma well_formed_append: "well_formed xs \<Longrightarrow> well_formed ys \<Longrightarrow> well_formed (xs @ ys)"
proof (induction xs rule: well_formed.induct)
  case 1
  then show ?case by simp
next
  case (2 c)
  then show ?case by (simp add: well_formed_cons plain_unit_def)
next
  case (3 c d cs)
  then show ?case by (cases "is_high_surrogate c") simp_all
qed

lemma plain_unit_small: "unat c < 0xD800 \<Longrightarrow> plain_unit c"
  by (simp add: plain_unit_def is_high_surrogate_def is_low_surrogate_def)

lemma plain_unit_of_nat: "n < 0xD800 \<Longrightarrow> plain_unit (of_nat n)"
  by (rule plain_unit_small) (simp add: unat_of_nat)

lemma plain_lit: "list_all plain_unit (lit s)"
proof -
  have "plain_unit (of_nat (of_char c))" for c :: char
  proof (rule plain_unit_of_nat)
    have "(of_char c :: nat) < 256" by simp
    then show "(of_char c :: nat) < 0xD800" by linarith
  qed
  then show ?thesis by (simp add: lit_def list_all_iff)
qed

lemma well_formed_lit: "well_formed (lit s)"
  by (rule well_formed_plain) (rule plain_lit)

lemma plain_hex_digit: "v < 16 \<Longrightarrow> plain_unit (hex_digit v)"
proof -
  assume "v < 16"
  then have "48 + v < 0xD800" "87 + v < 0xD800" by simp_all
  then have "plain_unit (of_nat (48 + v))" "plain_unit (of_nat (87 + v))"
    by (simp_all only: plain_unit_of_nat)
  then show ?thesis by (simp only: hex_digit_def split: if_splits) simp
qed

lemma plain_unicode_escape: "list_all plain_unit (unicode_escape c)"
proof -
  have "unat c div 4096 < 16"
    using unsigned_less [of c, where ?'a = nat] by (simp add: less_mult_imp_div_less)
  then show ?thesis
    by (simp add: unicode_escape_def plain_hex_digit plain_unit_small)
qed

lemma plain_quote_unit: "list_all plain_unit (quote_unit c)"
  by (simp add: quote_unit_def plain_unicode_escape plain_unit_small) (simp add: plain_unit_def)

lemma well_formed_quote_units: "well_formed (quote_units s)"
proof (induction s rule: quote_units.induct)
  case 1
  show ?case by simp
next
  case (2 c)
  show ?case by (simp add: well_formed_plain plain_quote_unit)
next
  case (3 c d cs)
  show ?case
  proof (cases "is_high_surrogate c \<and> is_low_surrogate d")
    case True
    with 3 show ?thesis by simp
  next
    case False
    with 3 have "well_formed (quote_units (d # cs))" by simp
    moreover have "well_formed (quote_unit c)"
      by (rule well_formed_plain) (rule plain_quote_unit)
    ultimately have "well_formed (quote_unit c @ quote_units (d # cs))"
      by (simp only: well_formed_append)
    with False show ?thesis by auto
  qed
qed

lemma well_formed_QuoteJSONString: "well_formed (QuoteJSONString s)"
  unfolding QuoteJSONString_def
  by (intro well_formed_append well_formed_quote_units well_formed_plain)
    (simp_all add: plain_unit_small)

lemma well_formed_join:
  "well_formed sep \<Longrightarrow> (\<And>x. x \<in> set xs \<Longrightarrow> well_formed x) \<Longrightarrow> well_formed (join sep xs)"
  by (induction sep xs rule: join.induct) (simp_all add: well_formed_append)

lemma well_formed_canonical_text: "well_formed (canonical_text num v)"
proof (induction num v rule: canonical_text.induct)
  case (5 num vs)
  then show ?case
    by (auto intro!: well_formed_append well_formed_join well_formed_lit)
next
  case (6 num kvs)
  then show ?case
    by (auto intro!: well_formed_append well_formed_join well_formed_lit
        well_formed_QuoteJSONString)
qed (simp_all add: well_formed_lit well_formed_QuoteJSONString)

subsection \<open>What stringify returns\<close>

lemma sequence_map:
  assumes "\<And>x. x \<in> set xs \<Longrightarrow> f x = (if P x then Inr (g x) else Inl e)"
  shows "sequence (map f xs) = (if list_all P xs then Inr (map g xs) else Inl e)"
  using assms by (induction xs) auto

lemma stringify_eq:
  "stringify num v =
     (if unicode_strings v then Inr (canonical_text num v) else Inl StringNotUnicode)"
proof (induction num v rule: stringify.induct)
  case (5 num vs)
  have "sequence (map (stringify num) vs) =
      (if list_all unicode_strings vs then Inr (map (canonical_text num) vs)
       else Inl StringNotUnicode)"
    by (rule sequence_map) (rule "5.IH")
  then show ?case by simp
next
  case (6 num kvs)
  let ?f = "\<lambda>kv. case string_text (fst kv) of
                     Inl e \<Rightarrow> Inl e
                   | Inr k \<Rightarrow>
                       (case stringify num (snd kv) of
                          Inl e \<Rightarrow> Inl e
                        | Inr v \<Rightarrow> Inr (k @ lit '':'' @ v))"
  let ?P = "\<lambda>kv. well_formed (fst kv) \<and> unicode_strings (snd kv)"
  let ?g = "\<lambda>kv. QuoteJSONString (fst kv) @ lit '':'' @ canonical_text num (snd kv)"
  have "sequence (map ?f (sort_key fst kvs)) =
      (if list_all ?P (sort_key fst kvs) then Inr (map ?g (sort_key fst kvs))
       else Inl StringNotUnicode)"
  proof (rule sequence_map)
    fix x assume x: "x \<in> set (sort_key fst kvs)"
    show "?f x = (if ?P x then Inr (?g x) else Inl StringNotUnicode)"
    proof (cases "well_formed (fst x)")
      case True
      then have "string_text (fst x) = Inr (QuoteJSONString (fst x))"
        by (simp add: string_text_def)
      with "6.IH" [OF x this] True show ?thesis by simp
    next
      case False
      then show ?thesis by (simp add: string_text_def)
    qed
  qed
  moreover have "list_all ?P (sort_key fst kvs) = list_all ?P kvs"
    by (simp add: list_all_iff)
  ultimately show ?case by simp
qed (simp_all add: string_text_def)

lemma stringify_Inr:
  "stringify num v = Inr t \<Longrightarrow> unicode_strings v \<and> t = canonical_text num v"
  by (simp add: stringify_eq split: if_splits)

subsection \<open>The secret key accessor\<close>

text \<open>
  C9: \<^verbatim>\<open>getSecretKey\<close> throws when the secret is absent or shorter than 32 bytes of
  UTF-8, and returns the secret when it has at least 32 bytes. The length that counts
  is the byte length: 31 bytes fail, 32 bytes succeed, and a secret of 16 two-byte
  characters succeeds as well.
\<close>

theorem getSecretKey_threshold:
  "(SESSION_COOKIE_SECRET e = None \<longrightarrow> (\<exists>err. getSecretKey e = Inl err)) \<and>
   (\<forall>s. SESSION_COOKIE_SECRET e = Some s \<longrightarrow>
      (byteLength s < 32 \<longrightarrow> (\<exists>err. getSecretKey e = Inl err)) \<and>
      (byteLength s = 31 \<longrightarrow> getSecretKey e = Inl (SecretKeyTooShort 31)) \<and>
      (32 \<le> byteLength s \<longrightarrow> getSecretKey e = Inr s))"
  by (auto simp: getSecretKey_def byteLength_def Let_def split: option.splits)

lemma byteLength_ascii_31:
  "byteLength (lit ''0123456789abcdef0123456789abcde'') = 31"
  by (simp add: byteLength_def lit_def utf8_of_unit_def utf8_of_codepoint_def
      is_high_surrogate_def is_low_surrogate_def)

lemma byteLength_ascii_32:
  "byteLength (lit ''0123456789abcdef0123456789abcdef'') = 32"
  by (simp add: byteLength_def lit_def utf8_of_unit_def utf8_of_codepoint_def
      is_high_surrogate_def is_low_surrogate_def)

lemma byteLength_two_byte_units:
  "byteLength [0xE9, 0xE9, 0xE9, 0xE9, 0xE9, 0xE9, 0xE9, 0xE9,
               0xE9, 0xE9, 0xE9, 0xE9, 0xE9, 0xE9, 0xE9, 0xE9] = 32"
  by (simp add: byteLength_def utf8_of_unit_def utf8_of_codepoint_def
      is_high_surrogate_def is_low_surrogate_def)

theorem getSecretKey_threshold_witness:
  "(\<exists>err. getSecretKey \<lparr>SESSION_COOKIE_SECRET = None, SESSION_COOKIE_NAME = None\<rparr> = Inl err) \<and>
   getSecretKey \<lparr>SESSION_COOKIE_SECRET = Some (lit ''0123456789abcdef0123456789abcde''),
                 SESSION_COOKIE_NAME = None\<rparr> = Inl (SecretKeyTooShort 31) \<and>
   getSecretKey \<lparr>SESSION_COOKIE_SECRET = Some (lit ''0123456789abcdef0123456789abcdef''),
                 SESSION_COOKIE_NAME = None\<rparr> = Inr (lit ''0123456789abcdef0123456789abcdef'') \<and>
   length [0xE9, 0xE9, 0xE9, 0xE9, 0xE9, 0xE9, 0xE9, 0xE9,
           0xE9, 0xE9, 0xE9, 0xE9, 0xE9, 0xE9, 0xE9, 0xE9 :: unit16] = 16 \<and>
   getSecretKey \<lparr>SESSION_COOKIE_SECRET =
                   Some [0xE9, 0xE9, 0xE9, 0xE9, 0xE9, 0xE9, 0xE9, 0xE9,
                         0xE9, 0xE9, 0xE9, 0xE9, 0xE9, 0xE9, 0xE9, 0xE9],
                 SESSION_COOKIE_NAME = None\<rparr> =
     Inr [0xE9, 0xE9, 0xE9, 0xE9, 0xE9, 0xE9, 0xE9, 0xE9,
          0xE9, 0xE9, 0xE9, 0xE9, 0xE9, 0xE9, 0xE9, 0xE9]"
  using
    getSecretKey_threshold [of "\<lparr>SESSION_COOKIE_SECRET = None, SESSION_COOKIE_NAME = None\<rparr>"]
    getSecretKey_threshold [of "\<lparr>SESSION_COOKIE_SECRET = Some (lit ''0123456789abcdef0123456789abcde''),
                                 SESSION_COOKIE_NAME = None\<rparr>"]
    getSecretKey_threshold [of "\<lparr>SESSION_COOKIE_SECRET = Some (lit ''0123456789abcdef0123456789abcdef''),
                                 SESSION_COOKIE_NAME = None\<rparr>"]
    getSecretKey_threshold [of "\<lparr>SESSION_COOKIE_SECRET =
                                   Some [0xE9, 0xE9, 0xE9, 0xE9, 0xE9, 0xE9, 0xE9, 0xE9,
                                         0xE9, 0xE9, 0xE9, 0xE9, 0xE9, 0xE9, 0xE9, 0xE9],
                                 SESSION_COOKIE_NAME = None\<rparr>"]
  by (simp add: byteLength_ascii_31 byteLength_ascii_32 byteLength_two_byte_units)

subsection \<open>Shape of a signature\<close>

text \<open>
  C3: with the default options (SHA-1, base64) \<^verbatim>\<open>sign\<close> returns, for every string or
  Buffer and every key, the base64 text of the HMAC-SHA1 digest with \<^verbatim>\<open>/\<close> replaced by
  \<^verbatim>\<open>_\<close>, \<^verbatim>\<open>+\<close> by \<^verbatim>\<open>-\<close> and \<^verbatim>\<open>=\<close> deleted: a string of exactly 27 code
  units, none of which is \<^verbatim>\<open>/\<close>, \<^verbatim>\<open>+\<close> or \<^verbatim>\<open>=\<close>.
\<close>

theorem sign_default_shape:
  "sign d key None = replace_unsafe (base64_encode (hmac Sha1 (utf8_encode key) (data_bytes d))) \<and>
   length (sign d key None) = 27 \<and>
   0x2F \<notin> set (sign d key None) \<and>
   0x2B \<notin> set (sign d key None) \<and>
   0x3D \<notin> set (sign d key None)"
proof -
  have "sign d key None = replace_unsafe (base64_encode (hmac Sha1 (utf8_encode key) (data_bytes d)))"
    by (simp add: sign_def digest_text_def)
  moreover have "set (sign d key None) \<inter> {0x2F, 0x2B, 0x3D} = {}"
    by (simp only: calculation set_replace_unsafe)
  ultimately show ?thesis
    using length_sign_default [of d key] by auto
qed

theorem sign_default_shape_witness:
  "length (sign (StringData (lit ''hello'')) (lit ''secret'') None) = 27 \<and>
   length (sign (BufferData [0x00, 0xFF]) [] None) = 27 \<and>
   0x3D \<notin> set (sign (BufferData [0x00, 0xFF]) [] None)"
  using sign_default_shape [of "StringData (lit ''hello'')" "lit ''secret''"]
    sign_default_shape [of "BufferData [0x00, 0xFF]" "[]"]
  by blast

subsection \<open>Comparison of two strings\<close>

text \<open>
  C4: \<^verbatim>\<open>timeSafeCompare\<close> never throws and returns true exactly when the two strings
  are equal, whatever random key the call drew and whether or not the platform has a
  constant-time primitive; in particular it returns false for strings of different
  lengths.
\<close>

theorem timeSafeCompare_iff_equal:
  "timeSafeCompare native rnd a b = Inr (a = b) \<and>
   (length a \<noteq> length b \<longrightarrow> timeSafeCompare native rnd a b = Inr False)"
  by (auto simp: timeSafeCompare_eq)

theorem timeSafeCompare_iff_equal_witness:
  "timeSafeCompare True (replicate 32 0x2A) (lit ''abc'') (lit ''abc'') = Inr True \<and>
   timeSafeCompare False (replicate 32 0x2A) (lit ''abc'') (lit ''abd'') = Inr False \<and>
   length (lit ''ab'') \<noteq> length (lit ''abc'') \<and>
   timeSafeCompare True (replicate 32 0x2A) (lit ''ab'') (lit ''abc'') = Inr False"
  using timeSafeCompare_iff_equal [of True "replicate 32 0x2A" "lit ''abc''" "lit ''abc''"]
    timeSafeCompare_iff_equal [of False "replicate 32 0x2A" "lit ''abc''" "lit ''abd''"]
    timeSafeCompare_iff_equal [of True "replicate 32 0x2A" "lit ''ab''" "lit ''abc''"]
  by (simp add: lit_def)

subsection \<open>A signature verifies\<close>

lemma verify_own_signature: "verify native rnd key d (sign d key None) = Inr True"
  by (simp add: verify_def timeSafeCompare_eq)

lemma stringify_example:
  "stringify digits
     (JObject [(lit ''ts'', JString (lit ''1'')), (lit ''identifier'', JString (lit ''abc''))]) =
   Inr ([0x7B, 0x22] @ lit ''identifier'' @ [0x22, 0x3A, 0x22] @ lit ''abc'' @ [0x22, 0x2C, 0x22]
          @ lit ''ts'' @ [0x22, 0x3A, 0x22] @ lit ''1'' @ [0x22, 0x7D])"
  by (simp add: string_text_def QuoteJSONString_def quote_unit_def lit_def is_high_surrogate_def
      is_low_surrogate_def)

text \<open>
  C1: for every key of at least 32 bytes of UTF-8, verifying a data against its own
  signature (default algorithm and encoding) returns true; in particular for the
  canonical JSON text that \<^verbatim>\<open>stringify\<close> returns for a payload \<open>P\<close>. The length of the
  key plays no part: the same holds for every key (\<open>verify_own_signature\<close>).
\<close>

theorem verify_sign_roundtrip:
  "32 \<le> byteLength key \<Longrightarrow>
   verify native rnd key d (sign d key None) = Inr True \<and>
   (stringify num P = Inr t \<longrightarrow>
      verify native rnd key (StringData t) (sign (StringData t) key None) = Inr True)"
  by (simp add: verify_own_signature)

theorem verify_sign_roundtrip_witness:
  "32 \<le> byteLength (lit ''0123456789abcdef0123456789abcdef'') \<and>
   stringify digits
     (JObject [(lit ''ts'', JString (lit ''1'')), (lit ''identifier'', JString (lit ''abc''))]) =
   Inr ([0x7B, 0x22] @ lit ''identifier'' @ [0x22, 0x3A, 0x22] @ lit ''abc'' @ [0x22, 0x2C, 0x22]
          @ lit ''ts'' @ [0x22, 0x3A, 0x22] @ lit ''1'' @ [0x22, 0x7D]) \<and>
   verify True (replicate 32 0x2A) (lit ''0123456789abcdef0123456789abcdef'')
     (StringData ([0x7B, 0x22] @ lit ''identifier'' @ [0x22, 0x3A, 0x22] @ lit ''abc''
        @ [0x22, 0x2C, 0x22] @ lit ''ts'' @ [0x22, 0x3A, 0x22] @ lit ''1'' @ [0x22, 0x7D]))
     (sign (StringData ([0x7B, 0x22] @ lit ''identifier'' @ [0x22, 0x3A, 0x22] @ lit ''abc''
        @ [0x22, 0x2C, 0x22] @ lit ''ts'' @ [0x22, 0x3A, 0x22] @ lit ''1'' @ [0x22, 0x7D]))
        (lit ''0123456789abcdef0123456789abcdef'') None) = Inr True \<and>
   verify False (replicate 32 0x2A) (lit ''0123456789abcdef0123456789abcdef'')
     (BufferData [0x68, 0x69])
     (sign (BufferData [0x68, 0x69]) (lit ''0123456789abcdef0123456789abcdef'') None) = Inr True"
proof -
  let ?P = "JObject [(lit ''ts'', JString (lit ''1'')), (lit ''identifier'', JString (lit ''abc''))]
              :: nat json"
  let ?t = "[0x7B, 0x22] @ lit ''identifier'' @ [0x22, 0x3A, 0x22] @ lit ''abc''
        @ [0x22, 0x2C, 0x22] @ lit ''ts'' @ [0x22, 0x3A, 0x22] @ lit ''1'' @ [0x22, 0x7D]"
  let ?K = "lit ''0123456789abcdef0123456789abcdef''"
  have k: "32 \<le> byteLength ?K" by (simp add: byteLength_ascii_32)
  have s: "stringify digits ?P = Inr ?t" by (rule stringify_example)
  from verify_sign_roundtrip [OF k, of True "replicate 32 0x2A" "StringData ?t" digits ?P ?t]
    verify_sign_roundtrip [OF k, of False "replicate 32 0x2A" "BufferData [0x68, 0x69]"
      digits ?P ?t]
    k s
  show ?thesis by blast
qed

subsection \<open>Parsing a Cookie header\<close>

lemma tryDecode_Inr: "\<exists>v. tryDecode s dec = Inr v"
  by (simp add: tryDecode_def split: sum.splits)

lemma parse_segment_Inr: "\<exists>m. parse_segment dec acc val = Inr m"
proof -
  obtain v where "tryDecode (if 1 < length val then Some (val ! 1) else None) dec = Inr v"
    using tryDecode_Inr by blast
  then show ?thesis by (simp add: parse_segment_def)
qed

lemma foldl_err_Inr:
  assumes "\<And>acc x. \<exists>m. f acc x = Inr m"
  shows "\<exists>m. foldl_err f acc xs = Inr m"
proof (induction xs arbitrary: acc)
  case Nil
  show ?case by simp
next
  case (Cons x xs)
  obtain m where "f acc x = Inr m" using assms by blast
  with Cons.IH [of m] show ?case by simp
qed

lemma map_err_Inr:
  assumes "\<And>x. \<exists>y. f x = Inr y"
  shows "\<exists>ys. map_err f xs = Inr ys"
proof (induction xs)
  case Nil
  show ?case by simp
next
  case (Cons x xs)
  obtain y where "f x = Inr y" using assms by blast
  moreover obtain ys where "map_err f xs = Inr ys" using Cons.IH by blast
  ultimately show ?case by simp
qed

lemma parse_header_Inr: "\<exists>m. parse_header dec cookie = Inr m"
  unfolding parse_header_def by (rule foldl_err_Inr) (rule parse_segment_Inr)

lemma parseCookie_Inr: "\<exists>m. parseCookie cookies decode_opt = Inr m"
proof -
  obtain ys where
    "map_err (parse_header (case decode_opt of None \<Rightarrow> decode | Some f \<Rightarrow> f)) cookies = Inr ys"
    using map_err_Inr [of "parse_header (case decode_opt of None \<Rightarrow> decode | Some f \<Rightarrow> f)" cookies]
      parse_header_Inr by blast
  then show ?thesis by (simp add: parseCookie_def)
qed





lemma decode_malformed: "decode (Some (lit ''%zz'')) = Inl URIError"
  by (simp add: decode_def decodeURIComponent_def lit_def hexval_def)

lemma split_malformed: "split 0x3D (trim (lit ''y=%zz'')) = [lit ''y'', lit ''%zz'']"
  by (simp add: split_def trim_def lit_def is_whitespace_def)

text \<open>
  C5: the claim is that a segment is split on its first \<^verbatim>\<open>=\<close> only, so that
  \<^verbatim>\<open>a=b=c\<close> gives the key \<^verbatim>\<open>a\<close> the value \<^verbatim>\<open>b=c\<close>. The code splits on every
  \<^verbatim>\<open>=\<close> and keeps the second piece: the value is \<^verbatim>\<open>b\<close>, and what follows the
  second \<^verbatim>\<open>=\<close> is lost.
\<close>

theorem parseCookie_splits_every_equals:
  "split 0x3D (trim (lit ''a=b=c'')) = [lit ''a'', lit ''b'', lit ''c''] \<and>
   parseCookie [lit ''a=b=c''] None = Inr [lit ''a'' \<mapsto> CString (lit ''b'')] \<and>
   parseCookie [lit ''a=b=c''] None \<noteq> Inr [lit ''a'' \<mapsto> CString (lit ''b=c'')]"
proof -
  have 1: "split 0x3D (trim (lit ''a=b=c'')) = [lit ''a'', lit ''b'', lit ''c'']"
    by (simp add: split_def trim_def lit_def is_whitespace_def)
  have 2: "parseCookie [lit ''a=b=c''] None = Inr [lit ''a'' \<mapsto> CString (lit ''b'')]"
    by (simp add: parseCookie_def parse_header_def split_def trim_def is_whitespace_def lit_def
        parse_segment_def tryDecode_def decode_def assign_def)
  have "[lit ''a'' \<mapsto> CString (lit ''b'')] (lit ''a'') \<noteq> [lit ''a'' \<mapsto> CString (lit ''b=c'')] (lit ''a'')"
    by (simp add: lit_def)
  then have 3: "[lit ''a'' \<mapsto> CString (lit ''b'')] \<noteq> [lit ''a'' \<mapsto> CString (lit ''b=c'')]"
    by metis
  from 1 2 3 show ?thesis by simp
qed



subsection \<open>JSON.parse inverts the canonical serialization\<close>

lemma word_char_facts:
  assumes "is_word_char c"
  shows "\<not> is_json_space c" "c \<noteq> 0x22"
  using assms by (auto simp: is_word_char_def is_json_space_def is_digit_def)

lemma lex_word_acc:
  assumes "list_all is_word_char cs" "boundary rest" "word_token (acc @ cs) = Some t"
  shows "tokenize (InWord acc) (cs @ rest) = map_option ((#) t) (tokenize Idle rest)"
  using assms
proof (induction cs arbitrary: acc)
  case Nil
  then show ?case
    by (cases rest) (simp_all add: boundary_def option.map_comp comp_def)
next
  case (Cons c cs)
  then show ?case by simp
qed

lemma lex_word:
  assumes "list_all is_word_char w" "w \<noteq> []" "boundary rest" "word_token w = Some t"
  shows "tokenize Idle (w @ rest) = map_option ((#) t) (tokenize Idle rest)"
proof -
  from assms(2) obtain c cs where w: "w = c # cs" by (cases w) auto
  with assms(1) have c: "is_word_char c" and cs: "list_all is_word_char cs" by simp_all
  have "tokenize Idle (w @ rest) = tokenize (InWord [c]) (cs @ rest)"
    using c word_char_facts [OF c] by (simp add: w)
  also have "\<dots> = map_option ((#) t) (tokenize Idle rest)"
    using cs assms(3,4) by (intro lex_word_acc) (simp_all add: w)
  finally show ?thesis .
qed

lemma word_chars_lit:
  "list_all is_word_char (lit ''null'')" "list_all is_word_char (lit ''true'')"
  "list_all is_word_char (lit ''false'')"
  by (simp_all add: lit_def is_word_char_def is_digit_def)

lemma word_token_literals:
  "word_token (lit ''null'') = Some TNull" "word_token (lit ''true'') = Some TTrue"
  "word_token (lit ''false'') = Some TFalse"
  by (simp_all add: word_token_def lit_def)

lemma valid_number_not_literal:
  assumes "valid_number w"
  shows "w \<noteq> lit ''true''" "w \<noteq> lit ''false''" "w \<noteq> lit ''null''"
  using assms by (auto simp: valid_number_def lit_def is_digit_def Let_def)

lemma word_token_number: "valid_number w \<Longrightarrow> word_token w = Some (TNumber w)"
  using valid_number_not_literal [of w] by (simp add: word_token_def)

lemma valid_number_nonempty: "valid_number w \<Longrightarrow> w \<noteq> []"
  by (auto simp: valid_number_def Let_def)

lemma hexval_hex_digit: "d < 16 \<Longrightarrow> hexval (hex_digit d) = Some d"
proof -
  assume d: "d < 16"
  have "unat (hex_digit d) = (if d < 10 then 48 + d else 87 + d)"
    using d unfolding hex_digit_def by (simp add: unat_of_nat del: of_nat_add of_nat_numeral)
  then show ?thesis using d by (auto simp: hexval_def Let_def)
qed

lemma hex4:
  fixes n :: nat
  assumes "n < 65536"
  shows "n div 4096 < 16"
    and "((n div 4096 * 16 + n div 256 mod 16) * 16 + n div 16 mod 16) * 16 + n mod 16 = n"
proof -
  define a b where "a = n div 16" and "b = n div 256"
  have ba: "b = a div 16" by (simp add: a_def b_def div_mult2_eq)
  have q: "n div 4096 = b div 16" by (simp add: b_def div_mult2_eq)
  show "n div 4096 < 16" using assms by (simp add: less_mult_imp_div_less)
  have 1: "b div 16 * 16 + b mod 16 = b" by simp
  have 2: "b * 16 + a mod 16 = a" by (simp add: ba)
  have 3: "a * 16 + n mod 16 = n" by (simp add: a_def)
  have "((b div 16 * 16 + b mod 16) * 16 + a mod 16) * 16 + n mod 16 = n"
    by (simp only: 1 2 3)
  then show "((n div 4096 * 16 + n div 256 mod 16) * 16 + n div 16 mod 16) * 16 + n mod 16 = n"
    by (simp only: q a_def b_def)
qed

lemma lex_unicode_escape:
  "tokenize (InString acc) (unicode_escape c @ rest) = tokenize (InString (acc @ [c])) rest"
proof -
  define n where "n = unat c"
  have n: "n < 65536" using unat_unit16_less [of c] by (simp add: n_def)
  note h = hex4 [OF n]
  have d: "n div 256 mod 16 < 16" "n div 16 mod 16 < 16" "n mod 16 < 16" by simp_all
  have "tokenize (InString acc) (unicode_escape c @ rest) =
        tokenize (InString (acc @ [of_nat (((n div 4096 * 16 + n div 256 mod 16) * 16
               + n div 16 mod 16) * 16 + n mod 16)])) rest"
    by (simp add: unicode_escape_def n_def [symmetric] hexval_hex_digit [OF h(1)]
        hexval_hex_digit [OF d(1)] hexval_hex_digit [OF d(2)] hexval_hex_digit [OF d(3)])
  then show ?thesis by (simp only: h(2)) (simp add: n_def)
qed

lemma lex_quote_unit:
  "tokenize (InString acc) (quote_unit c @ rest) = tokenize (InString (acc @ [c])) rest"
proof -
  consider "c \<in> {0x08, 0x09, 0x0A, 0x0C, 0x0D, 0x22, 0x5C}"
    | "c \<notin> {0x08, 0x09, 0x0A, 0x0C, 0x0D, 0x22, 0x5C}"
      "unat c < 0x20 \<or> is_high_surrogate c \<or> is_low_surrogate c"
    | "c \<notin> {0x08, 0x09, 0x0A, 0x0C, 0x0D, 0x22, 0x5C}"
      "\<not> (unat c < 0x20 \<or> is_high_surrogate c \<or> is_low_surrogate c)"
    by blast
  then show ?thesis
  proof cases
    case 1
    then show ?thesis by (auto simp: quote_unit_def escape_char_def)
  next
    case 2
    then have "quote_unit c = unicode_escape c" by (simp add: quote_unit_def)
    then show ?thesis by (simp only: lex_unicode_escape)
  next
    case 3
    then have "quote_unit c = [c]" by (simp add: quote_unit_def)
    with 3 show ?thesis by simp
  qed
qed

lemma surrogate_plain_in_string:
  assumes "is_high_surrogate c \<or> is_low_surrogate c"
  shows "c \<noteq> 0x22" "c \<noteq> 0x5C" "\<not> unat c < 0x20"
  using assms by (auto simp: is_high_surrogate_def is_low_surrogate_def)

lemma lex_quote_units:
  "tokenize (InString acc) (quote_units s @ 0x22 # rest) =
     map_option ((#) (TString (acc @ s))) (tokenize Idle rest)"
proof (induction s arbitrary: acc rule: quote_units.induct)
  case 1
  show ?case by simp
next
  case (2 c)
  show ?case by (simp add: lex_quote_unit)
next
  case (3 c d cs)
  show ?case
  proof (cases "is_high_surrogate c \<and> is_low_surrogate d")
    case True
    then show ?thesis
      using "3.IH"(1) [of "acc @ [c, d]"] surrogate_plain_in_string [of c]
        surrogate_plain_in_string [of d]
      by simp
  next
    case False
    then show ?thesis
      using "3.IH"(2) [of "acc @ [c]"] by (auto simp: lex_quote_unit)
  qed
qed

lemma lex_string:
  "tokenize Idle (QuoteJSONString s @ rest) = map_option ((#) (TString s)) (tokenize Idle rest)"
  using lex_quote_units [of "[]" s rest]
  by (simp add: QuoteJSONString_def is_json_space_def)

lemma lex_punctuation:
  "tokenize Idle (0x5B # s) = map_option ((#) LBracket) (tokenize Idle s)"
  "tokenize Idle (0x5D # s) = map_option ((#) RBracket) (tokenize Idle s)"
  "tokenize Idle (0x7B # s) = map_option ((#) LBrace) (tokenize Idle s)"
  "tokenize Idle (0x7D # s) = map_option ((#) RBrace) (tokenize Idle s)"
  "tokenize Idle (0x3A # s) = map_option ((#) Colon) (tokenize Idle s)"
  "tokenize Idle (0x2C # s) = map_option ((#) Comma) (tokenize Idle s)"
  by (simp_all add: is_json_space_def is_word_char_def is_digit_def punctuation_def)

lemma boundary_punctuation:
  "boundary (0x5D # s)" "boundary (0x7D # s)" "boundary (0x2C # s)" "boundary (0x3A # s)"
  "boundary []"
  by (simp_all add: boundary_def is_word_char_def is_digit_def)

lemma prepend_simps:
  "prepend a (prepend b t) = prepend (a @ b) t"
  "map_option ((#) x) t = prepend [x] t"
  "prepend [] t = t"
  by (cases t; simp add: prepend_def)+

lemma lex_join:
  assumes "\<And>x r. x \<in> set xs \<Longrightarrow> boundary r \<Longrightarrow>
             tokenize Idle (f x @ r) = prepend (g x) (tokenize Idle r)"
    and "boundary rest"
  shows "tokenize Idle (join [0x2C] (map f xs) @ rest) =
           prepend (join [Comma] (map g xs)) (tokenize Idle rest)"
  using assms
proof (induction xs)
  case Nil
  show ?case by (simp add: prepend_simps)
next
  case (Cons x xs)
  show ?case
  proof (cases xs)
    case Nil
    then show ?thesis using Cons.prems by simp
  next
    case (Cons y ys)
    have ih: "tokenize Idle (join [0x2C] (map f xs) @ rest) =
           prepend (join [Comma] (map g xs)) (tokenize Idle rest)"
      using Cons.IH Cons.prems by simp
    have "tokenize Idle (f x @ 0x2C # join [0x2C] (map f xs) @ rest) =
            prepend (g x) (tokenize Idle (0x2C # join [0x2C] (map f xs) @ rest))"
      using Cons.prems(1) [of x] boundary_punctuation(3) by simp
    also have "\<dots> = prepend (g x @ Comma # join [Comma] (map g xs)) (tokenize Idle rest)"
      by (simp add: lex_punctuation ih prepend_simps del: tokenize.simps)
    finally show ?thesis using Cons by simp
  qed
qed

lemma lit_comma: "lit '','' = [0x2C]" "lit ''['' = [0x5B]" "lit '']'' = [0x5D]"
  "lit ''{'' = [0x7B]" "lit ''}'' = [0x7D]" "lit '':'' = [0x3A]"
  by (simp_all add: lit_def)

lemma lex_value_word:
  assumes "list_all is_word_char w" "w \<noteq> []" "boundary rest" "word_token w = Some t"
  shows "tokenize Idle (w @ rest) = prepend [t] (tokenize Idle rest)"
  using lex_word [OF assms] by (simp only: prepend_simps)

lemma lex_canonical_text:
  assumes "number_texts num"
  shows "boundary rest \<Longrightarrow>
         tokenize Idle (canonical_text num v @ rest) = prepend (toks num v) (tokenize Idle rest)"
  using assms
proof (induction num v arbitrary: rest rule: canonical_text.induct)
  case (1 num)
  have "lit ''null'' \<noteq> []" by (simp add: lit_def)
  then show ?case
    using lex_value_word [OF word_chars_lit(1) _ "1.prems"(1) word_token_literals(1)] by simp
next
  case (2 num b)
  have "lit ''true'' \<noteq> []" "lit ''false'' \<noteq> []" by (simp_all add: lit_def)
  then show ?case
    using lex_value_word [OF word_chars_lit(2) _ "2.prems"(1) word_token_literals(2)]
      lex_value_word [OF word_chars_lit(3) _ "2.prems"(1) word_token_literals(3)]
    by simp
next
  case (3 num n)
  from "3.prems"(2) have v: "valid_number (lit (num n))" and w: "list_all is_word_char (lit (num n))"
    by (simp_all add: number_texts_def)
  show ?case
    using lex_value_word [OF w valid_number_nonempty [OF v] "3.prems"(1) word_token_number [OF v]]
    by simp
next
  case (4 num s)
  show ?case by (simp add: lex_string prepend_simps)
next
  case (5 num vs)
  have "tokenize Idle (join [0x2C] (map (canonical_text num) vs) @ 0x5D # rest) =
          prepend (join [Comma] (map (toks num) vs)) (tokenize Idle (0x5D # rest))"
    using "5.IH" "5.prems"(2) boundary_punctuation(1) by (intro lex_join) simp_all
  then show ?case
    by (simp add: lit_comma lex_punctuation prepend_simps del: tokenize.simps)
next
  case (6 num kvs)
  have "tokenize Idle
          (join [0x2C] (map (\<lambda>kv. QuoteJSONString (fst kv) @ lit '':'' @ canonical_text num (snd kv))
             (sort_key fst kvs)) @ 0x7D # rest) =
        prepend (join [Comma] (map (\<lambda>kv. [TString (fst kv), Colon] @ toks num (snd kv))
             (sort_key fst kvs))) (tokenize Idle (0x7D # rest))"
  proof (intro lex_join boundary_punctuation)
    fix x r
    assume x: "x \<in> set (sort_key fst kvs)" and r: "boundary r"
    have "tokenize Idle (canonical_text num (snd x) @ r) = prepend (toks num (snd x)) (tokenize Idle r)"
      using "6.IH" [OF x r "6.prems"(2)] .
    then show "tokenize Idle ((QuoteJSONString (fst x) @ lit '':'' @ canonical_text num (snd x)) @ r) =
        prepend ([TString (fst x), Colon] @ toks num (snd x)) (tokenize Idle r)"
      by (simp add: lex_string lit_comma lex_punctuation prepend_simps del: tokenize.simps)
  qed
  then show ?case
    by (simp add: lit_comma lex_punctuation prepend_simps del: tokenize.simps)
qed

lemma number_text_lit: "number_text (lit s) = s"
proof -
  have "char_of (unat (of_nat (of_char c) :: unit16)) = c" for c :: char
  proof -
    have "(of_char c :: nat) < 256" by simp
    then have "(of_char c :: nat) < 65536" by linarith
    then have "unat (of_nat (of_char c) :: unit16) = of_char c" by (simp add: unat_of_nat)
    then show ?thesis by simp
  qed
  then show ?thesis by (simp add: number_text_def lit_def map_idI)
qed

lemma toks_start: "\<exists>t more. toks num v = t # more \<and> t \<noteq> RBracket"
  by (cases v) auto

lemma run_need_value_or_close:
  "run numOf stack NeedValueOrClose (toks num v @ ts) =
   run numOf (ArrF [] # stack) NeedValue (toks num v @ ts)"
proof -
  obtain t more where "toks num v = t # more" "t \<noteq> RBracket" using toks_start by blast
  then show ?thesis by (simp add: step_def)
qed

lemma run_elements:
  assumes "\<And>v stack ts. v \<in> set vs \<Longrightarrow>
             run numOf stack NeedValue (toks num v @ ts) = run numOf stack (HaveValue (c v)) ts"
    and "vs \<noteq> []"
  shows "run numOf (ArrF es # stack) NeedValue (join [Comma] (map (toks num) vs) @ RBracket # ts) =
         run numOf stack (HaveValue (JArray (es @ map c vs))) ts"
  using assms
proof (induction vs arbitrary: es)
  case Nil
  then show ?case by simp
next
  case (Cons v vs)
  show ?case
  proof (cases vs)
    case Nil
    then show ?thesis using Cons.prems(1) [of v] by (simp add: step_def)
  next
    case (Cons w ws)
    have ih: "run numOf (ArrF (es @ [c v]) # stack) NeedValue
                (join [Comma] (map (toks num) vs) @ RBracket # ts) =
              run numOf stack (HaveValue (JArray ((es @ [c v]) @ map c vs))) ts"
      using Cons.IH [of "es @ [c v]"] Cons.prems(1) Cons by simp
    have "run numOf (ArrF es # stack) NeedValue
            (toks num v @ Comma # join [Comma] (map (toks num) vs) @ RBracket # ts) =
          run numOf (ArrF es # stack) (HaveValue (c v))
            (Comma # join [Comma] (map (toks num) vs) @ RBracket # ts)"
      using Cons.prems(1) [of v] by simp
    also have "\<dots> = run numOf stack (HaveValue (JArray ((es @ [c v]) @ map c vs))) ts"
      by (simp add: step_def ih)
    finally show ?thesis using Cons by simp
  qed
qed

lemma put_fresh: "k \<notin> fst ` set acc \<Longrightarrow> put acc k v = acc @ [(k, v)]"
  by (induction acc) auto

lemma foldl_put_distinct:
  "distinct (map fst acc @ map fst kvs) \<Longrightarrow>
   foldl (\<lambda>a kv. put a (fst kv) (c (snd kv))) acc kvs = acc @ map (\<lambda>kv. (fst kv, c (snd kv))) kvs"
proof (induction kvs arbitrary: acc)
  case Nil
  show ?case by simp
next
  case (Cons kv kvs)
  from Cons.prems have fresh: "fst kv \<notin> fst ` set acc" by auto
  from Cons.prems have "distinct (map fst (acc @ [(fst kv, c (snd kv))]) @ map fst kvs)" by auto
  from Cons.IH [OF this] show ?case by (simp add: put_fresh [OF fresh])
qed

lemma run_members:
  assumes "\<And>kv stack ts. kv \<in> set kvs \<Longrightarrow>
             run numOf stack NeedValue (toks num (snd kv) @ ts) =
             run numOf stack (HaveValue (c (snd kv))) ts"
    and "kvs \<noteq> []"
  shows "run numOf stack (NeedKey acc)
           (join [Comma] (map (\<lambda>kv. [TString (fst kv), Colon] @ toks num (snd kv)) kvs)
              @ RBrace # ts) =
         run numOf stack
           (HaveValue (JObject (foldl (\<lambda>a kv. put a (fst kv) (c (snd kv))) acc kvs))) ts"
  using assms
proof (induction kvs arbitrary: acc)
  case Nil
  then show ?case by simp
next
  case (Cons kv kvs)
  show ?case
  proof (cases kvs)
    case Nil
    then show ?thesis using Cons.prems(1) [of kv] by (simp add: step_def)
  next
    case (Cons kv' kvs')
    let ?rest = "join [Comma] (map (\<lambda>kv. [TString (fst kv), Colon] @ toks num (snd kv)) kvs)
                   @ RBrace # ts"
    have ih: "run numOf stack (NeedKey (put acc (fst kv) (c (snd kv)))) ?rest =
              run numOf stack (HaveValue (JObject
                (foldl (\<lambda>a kv. put a (fst kv) (c (snd kv))) (put acc (fst kv) (c (snd kv))) kvs))) ts"
      using Cons.IH [of "put acc (fst kv) (c (snd kv))"] Cons.prems(1) Cons by simp
    have "run numOf stack (NeedKey acc)
            ([TString (fst kv), Colon] @ toks num (snd kv) @ Comma # ?rest) =
          run numOf (ObjF acc (fst kv) # stack) NeedValue (toks num (snd kv) @ Comma # ?rest)"
      by (simp add: step_def)
    also have "\<dots> = run numOf (ObjF acc (fst kv) # stack) (HaveValue (c (snd kv))) (Comma # ?rest)"
      using Cons.prems(1) [of kv] by simp
    also have "\<dots> = run numOf stack (NeedKey (put acc (fst kv) (c (snd kv)))) ?rest"
      by (simp add: step_def)
    finally show ?thesis using Cons ih by simp
  qed
qed

lemma run_need_key_or_close:
  "run numOf stack NeedKeyOrClose (TString k # ts) = run numOf stack (NeedKey []) (TString k # ts)"
  by (simp add: step_def)

lemma distinct_map_insort_key:
  "distinct (map f (insort_key g x xs)) \<longleftrightarrow> f x \<notin> f ` set xs \<and> distinct (map f xs)"
  by (induction xs) (auto simp: set_insort_key)

lemma distinct_map_sort_key: "distinct (map f (sort_key g xs)) \<longleftrightarrow> distinct (map f xs)"
  by (induction xs) (simp_all add: distinct_map_insort_key)

lemma join_cons_prefix: "\<exists>more. join sep (x # xs) = x @ more"
  by (cases xs) simp_all

lemma run_toks:
  "\<forall>n. numOf (num n) = n \<Longrightarrow> proper v \<Longrightarrow>
   run numOf stack NeedValue (toks num v @ ts) = run numOf stack (HaveValue (canonical v)) ts"
proof (induction num v arbitrary: stack ts rule: toks.induct)
  case (1 num)
  show ?case by (simp add: step_def start_value_def)
next
  case (2 num b)
  show ?case by (simp add: step_def start_value_def)
next
  case (3 num n)
  then show ?case by (simp add: step_def start_value_def number_text_lit)
next
  case (4 num s)
  show ?case by (simp add: step_def start_value_def)
next
  case (5 num vs)
  show ?case
  proof (cases vs)
    case Nil
    then show ?thesis by (simp add: step_def start_value_def)
  next
    case (Cons v vs')
    let ?body = "join [Comma] (map (toks num) vs) @ RBracket # ts"
    have elems: "run numOf st NeedValue (toks num x @ r) = run numOf st (HaveValue (canonical x)) r"
      if "x \<in> set vs" for x st r
      using "5.IH" [OF that "5.prems"(1)] "5.prems"(2) that by (simp add: list_all_iff)
    obtain more where more: "join [Comma] (map (toks num) vs) = toks num v @ more"
      using join_cons_prefix [of "[Comma]" "toks num v" "map (toks num) vs'"] Cons by auto
    have "run numOf stack NeedValue (toks num (JArray vs) @ ts) =
          run numOf stack NeedValueOrClose ?body"
      by (simp add: step_def start_value_def)
    also have "\<dots> = run numOf (ArrF [] # stack) NeedValue ?body"
      using run_need_value_or_close [of numOf stack num v "more @ RBracket # ts"]
      by (simp add: more)
    also have "\<dots> = run numOf stack (HaveValue (JArray ([] @ map canonical vs))) ts"
      using elems Cons by (intro run_elements) simp_all
    finally show ?thesis by simp
  qed
next
  case (6 num kvs)
  let ?L = "sort_key fst kvs"
  show ?case
  proof (cases ?L)
    case Nil
    then have "kvs = []" by (metis length_sort list.size(3) length_0_conv)
    then show ?thesis by (simp add: step_def start_value_def)
  next
    case (Cons kv L')
    let ?member = "\<lambda>kv. [TString (fst kv), Colon] @ toks num (snd kv)"
    let ?body = "join [Comma] (map ?member ?L) @ RBrace # ts"
    have members: "run numOf st NeedValue (toks num (snd x) @ r) =
                   run numOf st (HaveValue (canonical (snd x))) r"
      if "x \<in> set ?L" for x st r
    proof -
      from that have "x \<in> set kvs" by simp
      with "6.prems"(2) have "proper (snd x)" by (simp add: list_all_iff)
      with "6.IH" [OF that "6.prems"(1)] show ?thesis by simp
    qed
    have d: "distinct (map fst [] @ map fst ?L)"
      using "6.prems"(2) by (simp add: distinct_map_sort_key)
    obtain more where more: "join [Comma] (map ?member ?L) = ?member kv @ more"
      using join_cons_prefix [of "[Comma]" "?member kv" "map ?member L'"] Cons by auto
    have "run numOf stack NeedValue (toks num (JObject kvs) @ ts) =
          run numOf stack NeedKeyOrClose ?body"
      by (simp add: step_def start_value_def)
    also have "\<dots> = run numOf stack (NeedKey []) ?body"
    proof -
      have "?body = TString (fst kv) # (Colon # toks num (snd kv) @ more @ RBrace # ts)"
        by (simp only: more) simp
      then show ?thesis by (simp only: run_need_key_or_close)
    qed
    also have "\<dots> = run numOf stack (HaveValue (JObject
        (foldl (\<lambda>a kv. put a (fst kv) (canonical (snd kv))) [] ?L))) ts"
      using members Cons by (intro run_members) simp_all
    also have "\<dots> = run numOf stack (HaveValue (canonical (JObject kvs))) ts"
      by (simp add: foldl_put_distinct [OF d])
    finally show ?thesis .
  qed
qed

lemma JSON_parse_canonical_text:
  assumes "number_texts num" "\<forall>n. numOf (num n) = n" "proper v"
  shows "JSON_parse numOf (canonical_text num v) = Inr (canonical v)"
proof -
  have "tokenize Idle (canonical_text num v @ []) = prepend (toks num v) (tokenize Idle [])"
    using assms(1) boundary_punctuation(5) by (intro lex_canonical_text)
  then have t: "tokenize Idle (canonical_text num v) = Some (toks num v)"
    by (simp add: prepend_def)
  have "run numOf [] NeedValue (toks num v @ []) = run numOf [] (HaveValue (canonical v)) []"
    using assms(2,3) by (intro run_toks)
  then have "run numOf [] NeedValue (toks num v) = Some (canonical v)" by simp
  with t show ?thesis by (simp add: JSON_parse_def)
qed

lemma digit_word_char: "is_digit c \<Longrightarrow> is_word_char c"
  by (simp add: is_word_char_def)

lemma digits_word_chars: "list_all is_digit ds \<Longrightarrow> list_all is_word_char ds"
  by (induction ds) (simp_all add: digit_word_char)

lemma takeWhile_digits_word_chars: "list_all is_word_char (takeWhile is_digit s)"
  by (induction s) (simp_all add: digit_word_char)

lemma word_chars_after_digits:
  "list_all is_word_char (dropWhile is_digit s) \<Longrightarrow> list_all is_word_char s"
  by (induction s) (auto simp: digit_word_char split: if_splits)

lemma letter_e_word_char: "is_word_char 0x65" "is_word_char 0x45" "is_word_char 0x2B"
  "is_word_char 0x2D" "is_word_char 0x2E"
  by (simp_all add: is_word_char_def is_digit_def)

lemma exponent_word_chars:
  assumes "case r2 of [] \<Rightarrow> True
           | c # r \<Rightarrow> (c = 0x65 \<or> c = 0x45) \<and>
               (let ds = (case r of [] \<Rightarrow> [] | s # t \<Rightarrow> if s = 0x2B \<or> s = 0x2D then t else r)
                in ds \<noteq> [] \<and> list_all is_digit ds)"
  shows "list_all is_word_char r2"
proof (cases r2)
  case Nil
  then show ?thesis by simp
next
  case (Cons c r)
  with assms have c: "c = 0x65 \<or> c = 0x45"
    and ds: "list_all is_digit (case r of [] \<Rightarrow> [] | s # t \<Rightarrow> if s = 0x2B \<or> s = 0x2D then t else r)"
    by (simp_all add: Let_def)
  have "list_all is_word_char r"
  proof (cases r)
    case Nil
    then show ?thesis by simp
  next
    case (Cons s t)
    with ds show ?thesis
      using letter_e_word_char(3,4)
      by (auto split: if_splits dest: digits_word_chars simp: digit_word_char)
  qed
  with c Cons show ?thesis using letter_e_word_char(1,2) by auto
qed

lemma valid_number_word_chars:
  assumes "valid_number w"
  shows "list_all is_word_char w"
proof -
  define w1 where "w1 = (case w of [] \<Rightarrow> [] | c # r \<Rightarrow> if c = 0x2D then r else w)"
  define r1 where "r1 = dropWhile is_digit w1"
  define r2 where "r2 = (case r1 of [] \<Rightarrow> [] | c # r \<Rightarrow> if c = 0x2E then dropWhile is_digit r else r1)"
  from assms have e: "case r2 of [] \<Rightarrow> True
           | c # r \<Rightarrow> (c = 0x65 \<or> c = 0x45) \<and>
               (let ds = (case r of [] \<Rightarrow> [] | s # t \<Rightarrow> if s = 0x2B \<or> s = 0x2D then t else r)
                in ds \<noteq> [] \<and> list_all is_digit ds)"
    unfolding valid_number_def Let_def w1_def r1_def r2_def by blast
  have r2: "list_all is_word_char r2" using e by (rule exponent_word_chars)
  have r1: "list_all is_word_char r1"
  proof (cases r1)
    case Nil
    then show ?thesis by simp
  next
    case (Cons c r)
    show ?thesis
    proof (cases "c = 0x2E")
      case True
      with Cons have "r2 = dropWhile is_digit r" by (simp add: r2_def)
      with r2 have "list_all is_word_char r" by (simp add: word_chars_after_digits)
      with True Cons show ?thesis using letter_e_word_char(5) by simp
    next
      case False
      with Cons have "r2 = r1" by (simp add: r2_def)
      with r2 show ?thesis by simp
    qed
  qed
  have w1: "list_all is_word_char w1"
    using r1 by (simp add: word_chars_after_digits r1_def)
  show ?thesis
  proof (cases w)
    case Nil
    then show ?thesis by simp
  next
    case (Cons c r)
    with w1 show ?thesis using letter_e_word_char(4) by (auto simp: w1_def split: if_splits)
  qed
qed

lemma JSON_parse_canonical_text_ok:
  assumes "numbers_ok num numOf" "proper v"
  shows "JSON_parse numOf (canonical_text num v) = Inr (canonical v)"
proof -
  have "number_texts num"
    using assms(1) by (simp add: numbers_ok_def number_texts_def valid_number_word_chars)
  moreover have "\<forall>n. numOf (num n) = n" using assms(1) by (simp add: numbers_ok_def)
  ultimately show ?thesis using assms(2) by (rule JSON_parse_canonical_text)
qed

lemma of_char_digit: "d < 10 \<Longrightarrow> (of_char (char_of (48 + d) :: char) :: nat) = 48 + d"
  by (simp add: of_char_of)

lemma decimal_value_snoc:
  "decimal_value (xs @ [c]) = decimal_value xs * 10 + (of_char c - 48)"
  by (simp add: decimal_value_def)

lemma decimal_value_digits: "decimal_value (digits n) = n"
proof (induction n rule: digits.induct)
  case (1 n)
  show ?case
  proof (cases "n < 10")
    case True
    then show ?thesis
      by (simp add: digits.simps [of n] decimal_value_def of_char_digit del: of_nat_add)
  next
    case False
    have "n mod 10 < 10" by simp
    then have "(of_char (char_of (48 + n mod 10) :: char) :: nat) = 48 + n mod 10"
      by (rule of_char_digit)
    with False 1 show ?thesis
      by (simp add: digits.simps [of n] decimal_value_snoc)
  qed
qed

lemma digits_nonempty: "digits n \<noteq> []"
  by (subst digits.simps) simp

lemma digits_are_digits: "list_all (\<lambda>c. 48 \<le> (of_char c :: nat) \<and> (of_char c :: nat) \<le> 57) (digits n)"
proof (induction n rule: digits.induct)
  case (1 n)
  have d: "48 \<le> (of_char (char_of (48 + k) :: char) :: nat) \<and>
           (of_char (char_of (48 + k) :: char) :: nat) \<le> 57" if "k < 10" for k :: nat
    using that by (simp add: of_char_digit)
  show ?case
  proof (cases "n < 10")
    case True
    then show ?thesis using d [of n] by (simp add: digits.simps [of n])
  next
    case False
    with 1 show ?thesis using d [of "n mod 10"] by (simp add: digits.simps [of n])
  qed
qed

lemma digits_leading:
  "length (digits n) = 1 \<or> (of_char (hd (digits n)) :: nat) \<noteq> 48"
proof (induction n rule: digits.induct)
  case (1 n)
  show ?case
  proof (cases "n < 10")
    case True
    then show ?thesis by (simp add: digits.simps [of n])
  next
    case False
    then have n: "digits n = digits (n div 10) @ [char_of (48 + n mod 10)]"
      by (simp add: digits.simps [of n])
    have h: "hd (digits n) = hd (digits (n div 10))"
      using digits_nonempty [of "n div 10"] by (simp add: n)
    show ?thesis
    proof (cases "n div 10 < 10")
      case True
      with False have "1 \<le> n div 10" by simp
      with True have "(of_char (hd (digits (n div 10))) :: nat) = 48 + n div 10"
        by (simp add: digits.simps [of "n div 10"] of_char_digit)
      with \<open>1 \<le> n div 10\<close> show ?thesis by (simp add: h)
    next
      case ge: False
      have "length (digits (n div 10)) = 1 \<or> (of_char (hd (digits (n div 10))) :: nat) \<noteq> 48"
        using 1 False by simp
      moreover have "length (digits (n div 10)) \<noteq> 1"
        using ge digits_nonempty [of "n div 10 div 10"]
        by (simp add: digits.simps [of "n div 10"])
      ultimately show ?thesis by (simp add: h)
    qed
  qed
qed

lemma all_digits_valid:
  assumes "list_all is_digit w" "w \<noteq> []" "length w = 1 \<or> hd w \<noteq> 0x30"
  shows "valid_number w"
proof -
  from assms(2) obtain c r where w: "w = c # r" by (cases w) auto
  with assms(1) have "is_digit c" by simp
  then have c: "c \<noteq> 0x2D" by (auto simp: is_digit_def)
  have t: "takeWhile is_digit w = w" "dropWhile is_digit w = []"
    using assms(1) by (simp_all add: list_all_iff)
  have w1: "(case w of [] \<Rightarrow> [] | c # r \<Rightarrow> if c = 0x2D then r else w) = w"
    using c by (simp add: w)
  show ?thesis
    unfolding valid_number_def Let_def w1 t using assms(2,3) by simp
qed

lemma unit_of_char: "unat (of_nat (of_char c) :: unit16) = of_char c"
proof -
  have "(of_char c :: nat) < 256" by simp
  then have "(of_char c :: nat) < 65536" by linarith
  then show ?thesis by (simp add: unat_of_nat)
qed

lemma valid_number_digits: "valid_number (lit (digits n))"
proof (rule all_digits_valid)
  show "list_all is_digit (lit (digits n))"
    using digits_are_digits [of n]
    by (simp add: lit_def list_all_iff is_digit_def unit_of_char)
  show "lit (digits n) \<noteq> []" using digits_nonempty [of n] by (simp add: lit_def)
  have "hd (lit (digits n)) = of_nat (of_char (hd (digits n)))"
    using digits_nonempty [of n] by (simp add: lit_def hd_map)
  moreover have "(of_nat (of_char c) :: unit16) \<noteq> 0x30" if "(of_char c :: nat) \<noteq> 48" for c :: char
  proof
    assume "(of_nat (of_char c) :: unit16) = 0x30"
    then have "unat (of_nat (of_char c) :: unit16) = 48" by simp
    with that show False by (simp add: unit_of_char)
  qed
  ultimately show "length (lit (digits n)) = 1 \<or> hd (lit (digits n)) \<noteq> 0x30"
    using digits_leading [of n] by (auto simp: lit_def)
qed

lemma numbers_ok_decimal: "numbers_ok digits decimal_value"
  by (simp add: numbers_ok_def valid_number_digits decimal_value_digits)

subsection \<open>The session of a cookie\<close>

lemma payload_of_cookie:
  "well_formed t \<Longrightarrow>
   utf8_decode (base64_decode (drop SIGNATURE_DIGEST_LENGTH
      (sign (StringData d) key None @ base64_encode (utf8_encode t)))) = t"
  by (simp add: SIGNATURE_DIGEST_LENGTH_def length_sign_default base64_roundtrip utf8_roundtrip)

lemma parseSession_of_cookie:
  "well_formed t \<Longrightarrow>
   parseSession numOf (sign (StringData d) key None @ base64_encode (utf8_encode t)) =
     JSON_parse numOf t"
  unfolding parseSession_def Let_def by (simp only: payload_of_cookie)

lemma byteLength_nil: "byteLength [] = 0"
  by (simp add: byteLength_def)

lemma createCookie_explicit_key:
  "key \<noteq> [] \<Longrightarrow>
   createCookie num e P (Some key) =
     (case stringify num P of
        Inl err \<Rightarrow> Inl err
      | Inr t \<Rightarrow> Inr (sign (StringData t) key None @ base64_encode (utf8_encode t)))"
  by (simp add: createCookie_def)

lemma createCookie_Inr:
  assumes "createCookie num e P secretKey = Inr c"
  shows "\<exists>k t. stringify num P = Inr t \<and>
           c = sign (StringData t) k None @ base64_encode (utf8_encode t)"
  using assms by (auto simp: createCookie_def split: sum.splits)

lemma createCookie_Inl:
  assumes "stringify num P = Inl x"
  shows "\<exists>err. createCookie num e P secretKey = Inl err"
  using assms by (auto simp: createCookie_def split: sum.splits)

lemma parseSession_createCookie:
  assumes "createCookie num e P secretKey = Inr c"
  shows "stringify num P = Inr (canonical_text num P) \<and>
         parseSession numOf c = JSON_parse numOf (canonical_text num P)"
proof -
  from createCookie_Inr [OF assms] obtain k t where
    t: "stringify num P = Inr t" and
    c: "c = sign (StringData t) k None @ base64_encode (utf8_encode t)"
    by blast
  from stringify_Inr [OF t] have e: "t = canonical_text num P" by simp
  then have "well_formed t" by (simp add: well_formed_canonical_text)
  then have "parseSession numOf c = JSON_parse numOf t"
    unfolding c by (rule parseSession_of_cookie)
  with t e show ?thesis by simp
qed

text \<open>
  C7: for every payload \<open>P\<close> that json-canon serializes (its strings and keys are
  well-formed Unicode, its numbers print as JSON numbers that read back unchanged, no
  object holds a key twice) and every key of at least 32 bytes, \<^verbatim>\<open>createCookie\<close>
  returns a cookie value, and \<^verbatim>\<open>parseSession\<close> of that value returns \<open>P\<close> itself, the
  members of its objects in ascending order of their keys. The cookie value is the
  signature followed by the base64 of the text that \<^verbatim>\<open>stringify\<close> returns; the signature
  is exactly the 27 code units that \<^verbatim>\<open>parseSession\<close> cuts off, and base64 and UTF-8
  decoding give the text back, so that \<^verbatim>\<open>parseSession\<close> of whatever \<^verbatim>\<open>createCookie\<close>
  returns is \<^verbatim>\<open>JSON.parse\<close> of that text. For a payload with a string or a key that is
  not well-formed Unicode \<^verbatim>\<open>stringify\<close> throws, and so does \<^verbatim>\<open>createCookie\<close>.
\<close>

theorem parseSession_createCookie_roundtrip:
  "(unicode_strings P \<and> proper P \<and> numbers_ok num numOf \<and> 32 \<le> byteLength key \<longrightarrow>
      (\<exists>c. createCookie num e P (Some key) = Inr c \<and>
           parseSession numOf c = Inr (canonical P))) \<and>
   (32 \<le> byteLength key \<and> stringify num P = Inr t \<longrightarrow>
      createCookie num e P (Some key) =
        Inr (sign (StringData t) key None @ base64_encode (utf8_encode t))) \<and>
   (unicode_strings P \<longrightarrow> (\<exists>t. stringify num P = Inr t)) \<and>
   (\<not> unicode_strings P \<longrightarrow>
      stringify num P = Inl StringNotUnicode \<and>
      (\<exists>err. createCookie num e P secretKey = Inl err)) \<and>
   (createCookie num e P secretKey = Inr c \<longrightarrow>
      (\<exists>t. stringify num P = Inr t \<and> parseSession numOf c = JSON_parse numOf t)) \<and>
   (numbers_ok num numOf \<and> proper P \<and> createCookie num e P secretKey = Inr c \<longrightarrow>
      parseSession numOf c = Inr (canonical P))"
proof -
  have k: "key \<noteq> []" if "32 \<le> byteLength key"
    using that byteLength_nil by auto
  have 2: "createCookie num e P (Some key) =
      Inr (sign (StringData t) key None @ base64_encode (utf8_encode t))"
    if "32 \<le> byteLength key" "stringify num P = Inr t" for t
    using that k by (simp add: createCookie_explicit_key)
  have 3: "\<exists>t. stringify num P = Inr t" if "unicode_strings P"
    using that by (simp add: stringify_eq)
  have 4: "stringify num P = Inl StringNotUnicode \<and>
      (\<exists>err. createCookie num e P secretKey = Inl err)" if "\<not> unicode_strings P"
  proof -
    from that have "stringify num P = Inl StringNotUnicode" by (simp add: stringify_eq)
    with createCookie_Inl [OF this] show ?thesis by simp
  qed
  have 5: "\<exists>t. stringify num P = Inr t \<and> parseSession numOf c = JSON_parse numOf t"
    if "createCookie num e P secretKey = Inr c"
    using parseSession_createCookie [OF that] by blast
  have 6: "parseSession numOf c = Inr (canonical P)"
    if "numbers_ok num numOf" "proper P" "createCookie num e' P sk = Inr c" for e' sk c
    using parseSession_createCookie [OF that(3), of numOf]
      JSON_parse_canonical_text_ok [OF that(1,2)]
    by simp
  have 1: "\<exists>c. createCookie num e P (Some key) = Inr c \<and>
      parseSession numOf c = Inr (canonical P)"
    if "unicode_strings P" "proper P" "numbers_ok num numOf" "32 \<le> byteLength key"
  proof -
    from 3 [OF that(1)] obtain t where "stringify num P = Inr t" by blast
    from 2 [OF that(4) this] obtain c where c: "createCookie num e P (Some key) = Inr c"
      by blast
    with 6 [OF that(3,2) c] show ?thesis by blast
  qed
  from 1 2 3 4 5 6 [of e secretKey c] show ?thesis by blast
qed

lemma digits_42: "digits 42 = ''42''"
  by code_simp

lemma session_example:
  "stringify digits
     (JObject [(lit ''ts'', JNumber 42), (lit ''identifier'', JString (lit ''abc''))]) =
   Inr ([0x7B, 0x22] @ lit ''identifier'' @ [0x22, 0x3A, 0x22] @ lit ''abc'' @ [0x22, 0x2C, 0x22]
          @ lit ''ts'' @ [0x22, 0x3A] @ lit ''42'' @ [0x7D])"
  by (simp add: string_text_def QuoteJSONString_def quote_unit_def lit_def is_high_surrogate_def
      is_low_surrogate_def digits_42)

lemma canonical_example:
  "canonical
     (JObject [(lit ''ts'', JNumber 42), (lit ''identifier'', JString (lit ''abc''))]) =
   JObject [(lit ''identifier'', JString (lit ''abc'')), (lit ''ts'', JNumber 42)]"
  by (simp add: lit_def)

lemma proper_example:
  "proper (JObject [(lit ''ts'', JNumber 42), (lit ''identifier'', JString (lit ''abc''))])"
  by (simp add: lit_def)

lemma unicode_strings_example:
  "unicode_strings
     (JObject [(lit ''ts'', JNumber 42), (lit ''identifier'', JString (lit ''abc''))])"
  by (simp add: well_formed_lit)

lemma lone_surrogate_example:
  "\<not> unicode_strings (JObject [(lit ''a'', JString [0xD800])])"
  by (simp add: is_high_surrogate_def)

theorem parseSession_createCookie_roundtrip_witness:
  "32 \<le> byteLength (lit ''0123456789abcdef0123456789abcdef'') \<and>
   numbers_ok digits decimal_value \<and>
   proper (JObject [(lit ''ts'', JNumber 42), (lit ''identifier'', JString (lit ''abc''))]
            :: nat json) \<and>
   unicode_strings (JObject [(lit ''ts'', JNumber 42), (lit ''identifier'', JString (lit ''abc''))]
            :: nat json) \<and>
   stringify digits
     (JObject [(lit ''ts'', JNumber 42), (lit ''identifier'', JString (lit ''abc''))]) =
   Inr ([0x7B, 0x22] @ lit ''identifier'' @ [0x22, 0x3A, 0x22] @ lit ''abc'' @ [0x22, 0x2C, 0x22]
          @ lit ''ts'' @ [0x22, 0x3A] @ lit ''42'' @ [0x7D]) \<and>
   createCookie digits \<lparr>SESSION_COOKIE_SECRET = None, SESSION_COOKIE_NAME = None\<rparr>
     (JObject [(lit ''ts'', JNumber 42), (lit ''identifier'', JString (lit ''abc''))])
     (Some (lit ''0123456789abcdef0123456789abcdef'')) =
   Inr (sign (StringData ([0x7B, 0x22] @ lit ''identifier'' @ [0x22, 0x3A, 0x22] @ lit ''abc''
          @ [0x22, 0x2C, 0x22] @ lit ''ts'' @ [0x22, 0x3A] @ lit ''42'' @ [0x7D]))
          (lit ''0123456789abcdef0123456789abcdef'') None
        @ base64_encode (utf8_encode ([0x7B, 0x22] @ lit ''identifier'' @ [0x22, 0x3A, 0x22]
          @ lit ''abc'' @ [0x22, 0x2C, 0x22] @ lit ''ts'' @ [0x22, 0x3A] @ lit ''42'' @ [0x7D]))) \<and>
   parseSession decimal_value
     (sign (StringData ([0x7B, 0x22] @ lit ''identifier'' @ [0x22, 0x3A, 0x22] @ lit ''abc''
          @ [0x22, 0x2C, 0x22] @ lit ''ts'' @ [0x22, 0x3A] @ lit ''42'' @ [0x7D]))
          (lit ''0123456789abcdef0123456789abcdef'') None
        @ base64_encode (utf8_encode ([0x7B, 0x22] @ lit ''identifier'' @ [0x22, 0x3A, 0x22]
          @ lit ''abc'' @ [0x22, 0x2C, 0x22] @ lit ''ts'' @ [0x22, 0x3A] @ lit ''42'' @ [0x7D]))) =
   Inr (JObject [(lit ''identifier'', JString (lit ''abc'')), (lit ''ts'', JNumber 42)]) \<and>
   stringify digits (JObject [(lit ''a'', JString [0xD800])]) = Inl StringNotUnicode \<and>
   (\<exists>err. createCookie digits \<lparr>SESSION_COOKIE_SECRET = None, SESSION_COOKIE_NAME = None\<rparr>
      (JObject [(lit ''a'', JString [0xD800])])
      (Some (lit ''0123456789abcdef0123456789abcdef'')) = Inl err)"
proof -
  let ?P = "JObject [(lit ''ts'', JNumber 42), (lit ''identifier'', JString (lit ''abc''))]
              :: nat json"
  let ?Q = "JObject [(lit ''identifier'', JString (lit ''abc'')), (lit ''ts'', JNumber 42)]
              :: nat json"
  let ?B = "JObject [(lit ''a'', JString [0xD800])] :: nat json"
  let ?t = "[0x7B, 0x22] @ lit ''identifier'' @ [0x22, 0x3A, 0x22] @ lit ''abc''
          @ [0x22, 0x2C, 0x22] @ lit ''ts'' @ [0x22, 0x3A] @ lit ''42'' @ [0x7D]"
  let ?K = "lit ''0123456789abcdef0123456789abcdef''"
  let ?e = "\<lparr>SESSION_COOKIE_SECRET = None, SESSION_COOKIE_NAME = None\<rparr>"
  let ?c = "sign (StringData ?t) ?K None @ base64_encode (utf8_encode ?t)"
  note r = parseSession_createCookie_roundtrip
    [where P = ?P and num = digits and numOf = decimal_value and key = ?K and e = ?e
       and t = ?t and secretKey = "Some ?K" and c = ?c]
  note b = parseSession_createCookie_roundtrip
    [where P = ?B and num = digits and numOf = decimal_value and e = ?e
       and secretKey = "Some ?K"]
  have k: "32 \<le> byteLength ?K" by (simp add: byteLength_ascii_32)
  have n: "numbers_ok digits decimal_value" by (rule numbers_ok_decimal)
  have p: "proper ?P" by (rule proper_example)
  have u: "unicode_strings ?P" by (rule unicode_strings_example)
  have s: "stringify digits ?P = Inr ?t" by (rule session_example)
  from r k s have c: "createCookie digits ?e ?P (Some ?K) = Inr ?c" by blast
  with r n p have "parseSession decimal_value ?c = Inr (canonical ?P)" by blast
  then have q: "parseSession decimal_value ?c = Inr ?Q" by (simp only: canonical_example)
  from b lone_surrogate_example
  have l: "stringify digits ?B = Inl StringNotUnicode"
    "\<exists>err. createCookie digits ?e ?B (Some ?K) = Inl err"
    by blast+
  from k n p u s c q l show ?thesis by blast
qed

lemma JSON_parse_empty: "JSON_parse numOf [] = Inl SyntaxError"
  by (simp add: JSON_parse_def)

lemma parseSession_short:
  "length s \<le> 27 \<Longrightarrow> parseSession numOf s = Inl SyntaxError"
  by (simp add: parseSession_def SIGNATURE_DIGEST_LENGTH_def base64_decode_def sextets_nil
      JSON_parse_empty)

lemma JSON_parse_error: "JSON_parse numOf s = Inl err \<Longrightarrow> err = SyntaxError"
  by (auto simp: JSON_parse_def split: option.splits)

lemma tokenize_skip_space: "tokenize Idle s = tokenize Idle (dropWhile is_json_space s)"
  by (induction s) simp_all

lemma JSON_parse_skip_space:
  "JSON_parse numOf s = JSON_parse numOf (dropWhile is_json_space s)"
  unfolding JSON_parse_def by (subst tokenize_skip_space) (rule refl)

lemma valid_number_first:
  assumes "valid_number w"
  shows "w \<noteq> [] \<and> (hd w = 0x2D \<or> is_digit (hd w))"
proof (cases w)
  case Nil
  with assms show ?thesis by (simp add: valid_number_def)
next
  case (Cons c r)
  show ?thesis
  proof (cases "c = 0x2D")
    case True
    with Cons show ?thesis by simp
  next
    case False
    with assms Cons have "takeWhile is_digit (c # r) \<noteq> []"
      by (simp add: valid_number_def Let_def)
    then have "is_digit c" by (simp split: if_splits)
    with Cons show ?thesis by simp
  qed
qed

lemma word_token_first:
  assumes "word_token w = Some t"
  shows "w \<noteq> [] \<and> begins_value (hd w)"
proof -
  from assms consider "w = lit ''true''" | "w = lit ''false''" | "w = lit ''null''"
    | "valid_number w"
    by (auto simp: word_token_def split: if_splits)
  then show ?thesis
  proof cases
    case 4
    from valid_number_first [OF this] show ?thesis by (auto simp: begins_value_def)
  qed (simp_all add: lit_def begins_value_def)
qed

lemma tokenize_word_prefix:
  "tokenize (InWord w) s = Some ts \<Longrightarrow> \<exists>more t. word_token (w @ more) = Some t"
proof (induction s arbitrary: w)
  case Nil
  then obtain t where "word_token w = Some t" by auto
  then have "word_token (w @ []) = Some t" by simp
  then show ?case by blast
next
  case (Cons c cs)
  show ?case
  proof (cases "is_word_char c")
    case True
    with Cons.prems have "tokenize (InWord (w @ [c])) cs = Some ts" by simp
    from Cons.IH [OF this] obtain more t where "word_token ((w @ [c]) @ more) = Some t"
      by blast
    then have "word_token (w @ (c # more)) = Some t" by simp
    then show ?thesis by blast
  next
    case False
    with Cons.prems obtain t where "word_token w = Some t"
      by (auto split: option.splits)
    then have "word_token (w @ []) = Some t" by simp
    then show ?thesis by blast
  qed
qed

lemma JSON_parse_bad_start:
  assumes "\<not> is_json_space c" "\<not> begins_value c"
  shows "JSON_parse numOf (c # rest) = Inl SyntaxError"
proof (cases "tokenize Idle (c # rest)")
  case None
  then show ?thesis by (simp add: JSON_parse_def)
next
  case (Some ts)
  from assms(2) have q: "c \<noteq> 0x22" "c \<noteq> 0x7B" "c \<noteq> 0x5B"
    by (auto simp: begins_value_def)
  have w: "\<not> is_word_char c"
  proof
    assume "is_word_char c"
    with Some assms(1) q have "tokenize (InWord [c]) rest = Some ts" by simp
    from tokenize_word_prefix [OF this] obtain more t where
      "word_token ([c] @ more) = Some t" by blast
    from word_token_first [OF this] assms(2) show False by simp
  qed
  with Some assms(1) q obtain p ts' where
    p: "punctuation c = Some p" and ts: "ts = p # ts'"
    by (auto split: option.splits)
  from p q have "p = RBrace \<or> p = RBracket \<or> p = Colon \<or> p = Comma"
    by (auto simp: punctuation_def split: if_splits)
  then have "step numOf [] NeedValue p = None"
    by (auto simp: step_def start_value_def)
  with Some ts show ?thesis by (simp add: JSON_parse_def)
qed

lemma parseSession_any_signature:
  "length a = 27 \<Longrightarrow> length b = 27 \<Longrightarrow>
   parseSession numOf (a @ p) = parseSession numOf (b @ p)"
  by (simp add: parseSession_def SIGNATURE_DIGEST_LENGTH_def)

text \<open>
  C10: \<^verbatim>\<open>parseSession\<close> throws whenever what follows the first 27 code units does not
  decode to a JSON text. For an input of at most 27 code units nothing follows, and the
  call throws the SyntaxError of \<^verbatim>\<open>JSON.parse('')\<close>. When what follows is the base64 of a
  text, the call returns or throws as \<^verbatim>\<open>JSON.parse\<close> of that text does, whatever the
  first 27 code units are: no signature is checked. It throws when the decoded text is
  empty or blank, and when its first code unit after the white space cannot begin a
  JSON value. Every error of \<^verbatim>\<open>parseSession\<close> is a SyntaxError.
\<close>

theorem parseSession_throws_on_bad_payload:
  "(length s \<le> 27 \<longrightarrow>
      drop SIGNATURE_DIGEST_LENGTH s = [] \<and> parseSession numOf s = Inl SyntaxError) \<and>
   (length sig = 27 \<and> well_formed t \<longrightarrow>
      parseSession numOf (sig @ base64_encode (utf8_encode t)) = JSON_parse numOf t) \<and>
   (length sig = 27 \<and> well_formed t \<and> JSON_parse numOf t = Inl err \<longrightarrow>
      parseSession numOf (sig @ base64_encode (utf8_encode t)) = Inl SyntaxError) \<and>
   (dropWhile is_json_space (utf8_decode (base64_decode (drop SIGNATURE_DIGEST_LENGTH s))) = []
      \<longrightarrow> parseSession numOf s = Inl SyntaxError) \<and>
   (dropWhile is_json_space (utf8_decode (base64_decode (drop SIGNATURE_DIGEST_LENGTH s)))
        = c # rest \<and> \<not> begins_value c
      \<longrightarrow> parseSession numOf s = Inl SyntaxError) \<and>
   (parseSession numOf s = Inl err \<longrightarrow> err = SyntaxError) \<and>
   (length a = 27 \<and> length b = 27 \<longrightarrow>
      parseSession numOf (a @ p) = parseSession numOf (b @ p))"
proof -
  let ?text = "utf8_decode (base64_decode (drop SIGNATURE_DIGEST_LENGTH s))"
  have p: "parseSession numOf s = JSON_parse numOf (dropWhile is_json_space ?text)"
    unfolding parseSession_def Let_def by (rule JSON_parse_skip_space)
  have 1: "drop SIGNATURE_DIGEST_LENGTH s = [] \<and> parseSession numOf s = Inl SyntaxError"
    if "length s \<le> 27"
    using that by (simp add: parseSession_short SIGNATURE_DIGEST_LENGTH_def)
  have 2: "parseSession numOf (sig @ base64_encode (utf8_encode t)) = JSON_parse numOf t"
    if "length sig = 27" "well_formed t"
    using that
    by (simp add: parseSession_def SIGNATURE_DIGEST_LENGTH_def base64_roundtrip utf8_roundtrip)
  have 3: "parseSession numOf (sig @ base64_encode (utf8_encode t)) = Inl SyntaxError"
    if "length sig = 27" "well_formed t" "JSON_parse numOf t = Inl err"
    using 2 [OF that(1,2)] that(3) JSON_parse_error [OF that(3)] by simp
  have 4: "parseSession numOf s = Inl SyntaxError"
    if "dropWhile is_json_space ?text = []"
  proof -
    from p have "parseSession numOf s = JSON_parse numOf []" by (simp only: that)
    then show ?thesis by (simp only: JSON_parse_empty)
  qed
  have 5: "parseSession numOf s = Inl SyntaxError"
    if "dropWhile is_json_space ?text = c # rest" "\<not> begins_value c"
  proof -
    from that(1) have "c \<in> set (dropWhile is_json_space ?text)" by simp
    have "\<not> is_json_space c"
      using that(1) by (metis hd_dropWhile list.sel(1) list.distinct(1))
    from JSON_parse_bad_start [OF this that(2)] p that(1) show ?thesis by simp
  qed
  have 6: "err = SyntaxError" if "parseSession numOf s = Inl err"
    using that unfolding parseSession_def Let_def by (rule JSON_parse_error)
  have 7: "parseSession numOf (a @ p) = parseSession numOf (b @ p)"
    if "length a = 27" "length b = 27"
    using that by (rule parseSession_any_signature)
  from 1 2 3 4 5 6 7 show ?thesis by blast
qed

lemma bad_payload_example:
  "parseSession decimal_value (lit ''123456789012345678901234567ew=='') = Inl SyntaxError"
  by (simp add: parseSession_def SIGNATURE_DIGEST_LENGTH_def lit_def base64_decode_def
      base64_sextets_def low_byte_def
      List.map_filter_simps b64val_def JSON_parse_def is_json_space_def is_word_char_def
      is_digit_def punctuation_def step_def start_value_def)

lemma low_byte_payload_example:
  "parseSession decimal_value
     (lit ''123456789012345678901234567'' @ [0x4D, 0x151, 0x3D, 0x3D]) = Inr (JNumber 1)"
  by (simp add: parseSession_def SIGNATURE_DIGEST_LENGTH_def lit_def base64_decode_def
      base64_sextets_def low_byte_def
      List.map_filter_simps b64val_def JSON_parse_def is_json_space_def is_word_char_def
      is_digit_def punctuation_def step_def start_value_def word_token_def valid_number_def
      number_text_def decimal_value_def)

lemma blank_payload_example:
  "utf8_decode (base64_decode (drop SIGNATURE_DIGEST_LENGTH
     (lit ''123456789012345678901234567IA==''))) = [0x20]"
  by (simp add: SIGNATURE_DIGEST_LENGTH_def lit_def base64_decode_def
      base64_sextets_def low_byte_def List.map_filter_simps b64val_def)

lemma bad_start_payload_example:
  "utf8_decode (base64_decode (drop SIGNATURE_DIGEST_LENGTH
     (lit ''123456789012345678901234567fQ==''))) = [0x7D]"
  by (simp add: SIGNATURE_DIGEST_LENGTH_def lit_def base64_decode_def
      base64_sextets_def low_byte_def List.map_filter_simps b64val_def)

lemma not_json_example: "JSON_parse decimal_value (lit ''{'') = Inl SyntaxError"
  by (simp add: lit_def JSON_parse_def is_json_space_def is_word_char_def
      is_digit_def punctuation_def step_def start_value_def)

theorem parseSession_throws_on_bad_payload_witness:
  "length (lit ''abc'') \<le> 27 \<and>
   parseSession decimal_value (lit ''abc'') = Inl SyntaxError \<and>
   parseSession decimal_value [] = Inl SyntaxError \<and>
   length (lit ''123456789012345678901234567'') = 27 \<and> well_formed (lit ''{'') \<and>
   JSON_parse decimal_value (lit ''{'') = Inl SyntaxError \<and>
   parseSession decimal_value
     (lit ''123456789012345678901234567'' @ base64_encode (utf8_encode (lit ''{'')))
     = Inl SyntaxError \<and>
   parseSession decimal_value (lit ''123456789012345678901234567ew=='') = Inl SyntaxError \<and>
   parseSession decimal_value (lit ''123456789012345678901234567IA=='') = Inl SyntaxError \<and>
   \<not> begins_value 0x7D \<and>
   parseSession decimal_value (lit ''123456789012345678901234567fQ=='') = Inl SyntaxError \<and>
   parseSession decimal_value
     (lit ''123456789012345678901234567'' @ [0x4D, 0x151, 0x3D, 0x3D]) = Inr (JNumber 1) \<and>
   parseSession decimal_value (lit ''abcdefghijklmnopqrstuvwxyz_'' @ [0x4D, 0x151, 0x3D, 0x3D])
     = Inr (JNumber 1)"
proof -
  let ?sig = "lit ''123456789012345678901234567''"
  note short = parseSession_throws_on_bad_payload
    [where s = "lit ''abc''" and numOf = decimal_value and sig = ?sig and t = "lit ''{''"
       and err = SyntaxError]
  note empty = parseSession_throws_on_bad_payload [where s = "[]" and numOf = decimal_value]
  note blank = parseSession_throws_on_bad_payload
    [where s = "lit ''123456789012345678901234567IA==''" and numOf = decimal_value]
  note start = parseSession_throws_on_bad_payload
    [where s = "lit ''123456789012345678901234567fQ==''" and numOf = decimal_value
       and c = "0x7D" and rest = "[]" and a = ?sig and b = "lit ''abcdefghijklmnopqrstuvwxyz_''"
       and p = "[0x4D, 0x151, 0x3D, 0x3D]"]
  have l: "length (lit ''abc'') \<le> 27" "length ([] :: jsstring) \<le> 27" "length ?sig = 27"
    "length (lit ''abcdefghijklmnopqrstuvwxyz_'') = 27"
    by (simp_all add: lit_def)
  have w: "well_formed (lit ''{'')" by (rule well_formed_lit)
  have nb: "\<not> begins_value 0x7D" by (simp add: begins_value_def is_digit_def)
  have sp: "dropWhile is_json_space [0x20] = []" "dropWhile is_json_space [0x7D] = [0x7D]"
    by (simp_all add: is_json_space_def)
  from short l have 1: "parseSession decimal_value (lit ''abc'') = Inl SyntaxError" by blast
  from empty l have 2: "parseSession decimal_value [] = Inl SyntaxError" by blast
  from short l w not_json_example
  have 3: "parseSession decimal_value (?sig @ base64_encode (utf8_encode (lit ''{'')))
      = Inl SyntaxError" by blast
  from blank blank_payload_example sp
  have 4: "parseSession decimal_value (lit ''123456789012345678901234567IA=='') = Inl SyntaxError"
    by simp
  from start bad_start_payload_example sp nb
  have 5: "parseSession decimal_value (lit ''123456789012345678901234567fQ=='') = Inl SyntaxError"
    by simp
  from start l have "parseSession decimal_value (?sig @ [0x4D, 0x151, 0x3D, 0x3D]) =
      parseSession decimal_value (lit ''abcdefghijklmnopqrstuvwxyz_'' @ [0x4D, 0x151, 0x3D, 0x3D])"
    by blast
  with low_byte_payload_example
  have 6: "parseSession decimal_value
      (lit ''abcdefghijklmnopqrstuvwxyz_'' @ [0x4D, 0x151, 0x3D, 0x3D]) = Inr (JNumber 1)"
    by simp
  from l w nb not_json_example 1 2 3 4 5 6 bad_payload_example low_byte_payload_example
  show ?thesis by blast
qed

subsection \<open>Keys shorter than 32 bytes\<close>

lemma byteLength_short: "byteLength (lit ''short'') = 5"
  by (simp add: byteLength_def lit_def utf8_of_unit_def utf8_of_codepoint_def
      is_high_surrogate_def is_low_surrogate_def)

lemma stringify_empty_object: "stringify digits (JObject []) = Inr (lit ''{}'')"
  by (simp add: lit_def)

text \<open>
  C2, as stated: no operation that signs or verifies proceeds with a key shorter than
  32 bytes. It fails for \<^verbatim>\<open>verify\<close> and for \<^verbatim>\<open>createCookie\<close> with an explicit key,
  which never look at the length of the key: with the 5-byte key \<^verbatim>\<open>short\<close>,
  \<^verbatim>\<open>verify\<close> returns true and \<^verbatim>\<open>createCookie\<close> returns a cookie value.
\<close>

theorem short_key_not_refused_counterexample:
  "byteLength (lit ''short'') < 32 \<and>
   verify True (replicate 32 0x2A) (lit ''short'') (StringData (lit ''hello''))
     (sign (StringData (lit ''hello'')) (lit ''short'') None) = Inr True \<and>
   createCookie digits \<lparr>SESSION_COOKIE_SECRET = None, SESSION_COOKIE_NAME = None\<rparr>
     (JObject []) (Some (lit ''short'')) =
   Inr (sign (StringData (lit ''{}'')) (lit ''short'') None
          @ base64_encode (utf8_encode (lit ''{}'')))"
proof -
  have "lit ''short'' \<noteq> []" by (simp add: lit_def)
  then have "createCookie digits \<lparr>SESSION_COOKIE_SECRET = None, SESSION_COOKIE_NAME = None\<rparr>
      (JObject []) (Some (lit ''short'')) =
    (case stringify digits (JObject []) of
       Inl err \<Rightarrow> Inl err
     | Inr t \<Rightarrow> Inr (sign (StringData t) (lit ''short'') None @ base64_encode (utf8_encode t)))"
    by (rule createCookie_explicit_key)
  then have "createCookie digits \<lparr>SESSION_COOKIE_SECRET = None, SESSION_COOKIE_NAME = None\<rparr>
      (JObject []) (Some (lit ''short'')) =
    Inr (sign (StringData (lit ''{}'')) (lit ''short'') None
          @ base64_encode (utf8_encode (lit ''{}'')))"
    by (simp only: stringify_empty_object sum.case)
  moreover have "byteLength (lit ''short'') < 32" by (simp add: byteLength_short)
  moreover note verify_own_signature [of True "replicate 32 0x2A" "lit ''short''"
      "StringData (lit ''hello'')"]
  ultimately show ?thesis by blast
qed

lemma getSecretKey_refuses:
  assumes "SESSION_COOKIE_SECRET e = None \<or>
           (\<exists>k. SESSION_COOKIE_SECRET e = Some k \<and> byteLength k < 32)"
  shows "\<exists>err. getSecretKey e = Inl err"
  using assms by (auto simp: getSecretKey_def Let_def)

lemma verifyCookieFromEvent_no_header:
  "getCookiesFromEvent ev = None \<Longrightarrow> verifyCookieFromEvent native rnd e ev = Inr False"
  by (simp add: verifyCookieFromEvent_def)

lemma verifyCookieFromEvent_bad_name:
  assumes "getCookiesFromEvent ev = Some cookies" "getCookieName e = Inl err"
  shows "verifyCookieFromEvent native rnd e ev = Inl err"
proof -
  obtain m where "parseCookie cookies None = Inr m" using parseCookie_Inr by blast
  with assms show ?thesis by (simp add: verifyCookieFromEvent_def)
qed

lemma verifyCookieFromEvent_no_session:
  assumes "getCookiesFromEvent ev = Some cookies" "parseCookie cookies None = Inr m"
    "getCookieName e = Inr name" "read_property m name = Missing \<or> m name = Some (CString [])"
  shows "verifyCookieFromEvent native rnd e ev = Inr False"
  using assms
  by (auto simp: verifyCookieFromEvent_def read_property_def split: option.splits if_splits)

lemma verifyCookieFromEvent_not_a_string:
  assumes "getCookiesFromEvent ev = Some cookies" "parseCookie cookies None = Inr m"
    "getCookieName e = Inr name" "read_property m name = Inherited \<or> m name = Some CTrue"
  shows "verifyCookieFromEvent native rnd e ev = Inl (TypeError ''substring is not a function'')"
  using assms
  by (auto simp: verifyCookieFromEvent_def read_property_def split: option.splits if_splits)

text \<open>
  C2, amended: the key is checked where it is read from the environment. With no
  secret there, or one shorter than 32 bytes, \<^verbatim>\<open>verifySessionString\<close> throws,
  \<^verbatim>\<open>createCookie\<close> without an explicit key (or with the empty string) throws, and
  \<^verbatim>\<open>verifyCookieFromEvent\<close> never returns true. Without a Cookie header it returns
  false. With one, it throws when the name of the session cookie is invalid; it returns
  false when the parsed cookies have no property of that name, their own or inherited,
  or have the empty string there; it throws a TypeError when the name is that of an
  inherited property or of a cookie without a value; and it throws the error of the key
  when the session cookie is a string that is not empty. The key that \<^verbatim>\<open>verify\<close> and
  \<^verbatim>\<open>createCookie\<close> are given is not checked: \<^verbatim>\<open>verify\<close> accepts the signature made
  with any key, and \<^verbatim>\<open>createCookie\<close> with an explicit key that is not the empty string
  signs with it.
\<close>

theorem short_key_refused_on_env_paths:
  assumes "SESSION_COOKIE_SECRET e = None \<or>
           (\<exists>k. SESSION_COOKIE_SECRET e = Some k \<and> byteLength k < 32)"
  shows "(\<exists>err. verifySessionString native rnd e session = Inl err) \<and>
         (\<exists>err. createCookie num e P None = Inl err) \<and>
         (\<exists>err. createCookie num e P (Some []) = Inl err) \<and>
         verifyCookieFromEvent native rnd e ev \<noteq> Inr True \<and>
         (getCookiesFromEvent ev = Some cookies \<and> parseCookie cookies None = Inr m \<and>
          getCookieName e = Inr name \<and> m name = Some (CString s) \<and> s \<noteq> []
            \<longrightarrow> (\<exists>err. verifyCookieFromEvent native rnd e ev = Inl err)) \<and>
         (getCookiesFromEvent ev = None
            \<longrightarrow> verifyCookieFromEvent native rnd e ev = Inr False) \<and>
         (getCookiesFromEvent ev = Some cookies \<and> getCookieName e = Inl err'
            \<longrightarrow> verifyCookieFromEvent native rnd e ev = Inl err') \<and>
         (getCookiesFromEvent ev = Some cookies \<and> parseCookie cookies None = Inr m \<and>
          getCookieName e = Inr name \<and>
          (read_property m name = Missing \<or> m name = Some (CString []))
            \<longrightarrow> verifyCookieFromEvent native rnd e ev = Inr False) \<and>
         (getCookiesFromEvent ev = Some cookies \<and> parseCookie cookies None = Inr m \<and>
          getCookieName e = Inr name \<and>
          (read_property m name = Inherited \<or> m name = Some CTrue)
            \<longrightarrow> verifyCookieFromEvent native rnd e ev =
                  Inl (TypeError ''substring is not a function'')) \<and>
         verify native rnd key d (sign d key None) = Inr True \<and>
         (key \<noteq> [] \<longrightarrow>
            createCookie num e P (Some key) =
              (case stringify num P of
                 Inl err \<Rightarrow> Inl err
               | Inr t \<Rightarrow> Inr (sign (StringData t) key None @ base64_encode (utf8_encode t))))"
proof -
  obtain err where g: "getSecretKey e = Inl err"
    using getSecretKey_refuses [OF assms] by blast
  have 1: "verifySessionString native rnd e session = Inl err"
    by (simp add: verifySessionString_def Let_def g)
  have 2: "createCookie num e P None = Inl err" "createCookie num e P (Some []) = Inl err"
    by (simp_all add: createCookie_def g)
  have 3: "verifyCookieFromEvent native rnd e ev \<noteq> Inr True"
    by (auto simp: verifyCookieFromEvent_def Let_def g
        split: option.splits sum.splits property.splits cookie_value.splits)
  have 4: "verifyCookieFromEvent native rnd e ev = Inl err"
    if "getCookiesFromEvent ev = Some cookies" "parseCookie cookies None = Inr m"
      "getCookieName e = Inr name" "m name = Some (CString s)" "s \<noteq> []"
    using that by (simp add: verifyCookieFromEvent_def Let_def g read_property_def)
  note 5 = verifyCookieFromEvent_no_header [of ev native rnd e]
  note 6 = verifyCookieFromEvent_bad_name [of ev cookies e err' native rnd]
  note 7 = verifyCookieFromEvent_no_session [of ev cookies m e name native rnd]
  note 8 = verifyCookieFromEvent_not_a_string [of ev cookies m e name native rnd]
  note 9 = verify_own_signature [of native rnd key d]
  note 10 = createCookie_explicit_key [of key num e P]
  from 1 2 3 4 5 6 7 8 9 10 show ?thesis by blast
qed

lemma parseCookie_session_example:
  "parseCookie [lit ''session=abc''] None = Inr [lit ''session'' \<mapsto> CString (lit ''abc'')]"
  by (simp add: parseCookie_def parse_header_def split_def trim_def is_whitespace_def lit_def
      parse_segment_def tryDecode_def decode_def assign_def)

lemma parseCookie_other_example:
  "parseCookie [lit ''a=b''] None = Inr [lit ''a'' \<mapsto> CString (lit ''b'')]"
  by (simp add: parseCookie_def parse_header_def split_def trim_def is_whitespace_def lit_def
      parse_segment_def tryDecode_def decode_def assign_def)

lemma getCookieName_constructor:
  "getCookieName \<lparr>SESSION_COOKIE_SECRET = s, SESSION_COOKIE_NAME = Some (lit ''constructor'')\<rparr>
     = Inr (lit ''constructor'')"
  by (simp add: getCookieName_def first_match_def is_name_char_def is_digit_def lit_def)

lemma getCookieName_with_space:
  "getCookieName \<lparr>SESSION_COOKIE_SECRET = s, SESSION_COOKIE_NAME = Some (lit ''my session'')\<rparr>
     = Inl CookieNameInvalid"
  by (simp add: getCookieName_def first_match_def is_name_char_def is_digit_def lit_def)

theorem short_key_refused_on_env_paths_witness:
  "(\<exists>err. verifySessionString True (replicate 32 0x2A)
      \<lparr>SESSION_COOKIE_SECRET = Some (lit ''0123456789abcdef0123456789abcde''),
       SESSION_COOKIE_NAME = None\<rparr> (lit ''abc'') = Inl err) \<and>
   (\<exists>err. verifyCookieFromEvent True (replicate 32 0x2A)
      \<lparr>SESSION_COOKIE_SECRET = Some (lit ''0123456789abcdef0123456789abcde''),
       SESSION_COOKIE_NAME = None\<rparr>
      \<lparr>multiValueHeaders = [lit ''Cookie'' \<mapsto> [lit ''session=abc'']]\<rparr> = Inl err) \<and>
   verifyCookieFromEvent True (replicate 32 0x2A)
      \<lparr>SESSION_COOKIE_SECRET = Some (lit ''0123456789abcdef0123456789abcde''),
       SESSION_COOKIE_NAME = None\<rparr>
      \<lparr>multiValueHeaders = Map.empty\<rparr> = Inr False \<and>
   verifyCookieFromEvent True (replicate 32 0x2A)
      \<lparr>SESSION_COOKIE_SECRET = Some (lit ''0123456789abcdef0123456789abcde''),
       SESSION_COOKIE_NAME = None\<rparr>
      \<lparr>multiValueHeaders = [lit ''Cookie'' \<mapsto> [lit ''a=b'']]\<rparr> = Inr False \<and>
   verifyCookieFromEvent True (replicate 32 0x2A)
      \<lparr>SESSION_COOKIE_SECRET = Some (lit ''0123456789abcdef0123456789abcde''),
       SESSION_COOKIE_NAME = Some (lit ''constructor'')\<rparr>
      \<lparr>multiValueHeaders = [lit ''Cookie'' \<mapsto> [lit ''a=b'']]\<rparr> =
     Inl (TypeError ''substring is not a function'') \<and>
   verifyCookieFromEvent True (replicate 32 0x2A)
      \<lparr>SESSION_COOKIE_SECRET = Some (lit ''0123456789abcdef0123456789abcde''),
       SESSION_COOKIE_NAME = Some (lit ''my session'')\<rparr>
      \<lparr>multiValueHeaders = [lit ''Cookie'' \<mapsto> [lit ''a=b'']]\<rparr> = Inl CookieNameInvalid \<and>
   verify True (replicate 32 0x2A) (lit ''short'') (StringData (lit ''hello''))
     (sign (StringData (lit ''hello'')) (lit ''short'') None) = Inr True"
proof -
  let ?k = "Some (lit ''0123456789abcdef0123456789abcde'')"
  let ?e = "\<lparr>SESSION_COOKIE_SECRET = ?k, SESSION_COOKIE_NAME = None\<rparr>"
  let ?ec = "\<lparr>SESSION_COOKIE_SECRET = ?k, SESSION_COOKIE_NAME = Some (lit ''constructor'')\<rparr>"
  let ?es = "\<lparr>SESSION_COOKIE_SECRET = ?k, SESSION_COOKIE_NAME = Some (lit ''my session'')\<rparr>"
  let ?ev = "\<lparr>multiValueHeaders = [lit ''Cookie'' \<mapsto> [lit ''session=abc'']]\<rparr>"
  let ?ea = "\<lparr>multiValueHeaders = [lit ''Cookie'' \<mapsto> [lit ''a=b'']]\<rparr>"
  let ?nohdr = "\<lparr>multiValueHeaders = Map.empty\<rparr> :: handler_event"
  let ?m = "[lit ''session'' \<mapsto> CString (lit ''abc'')]"
  let ?ma = "[lit ''a'' \<mapsto> CString (lit ''b'')]"
  have short: "SESSION_COOKIE_SECRET x = None \<or>
      (\<exists>k. SESSION_COOKIE_SECRET x = Some k \<and> byteLength k < 32)"
    if "SESSION_COOKIE_SECRET x = ?k" for x
    using that by (simp add: byteLength_ascii_31)
  have c: "getCookiesFromEvent ?ev = Some [lit ''session=abc'']"
    "getCookiesFromEvent ?ea = Some [lit ''a=b'']" "getCookiesFromEvent ?nohdr = None"
    by (simp_all add: getCookiesFromEvent_def lit_def)
  have n: "getCookieName ?e = Inr (lit ''session'')"
    by (simp add: getCookieName_def SESSION_COOKIE_NAME_DEFAULT_def)
  have v: "?m (lit ''session'') = Some (CString (lit ''abc''))" "lit ''abc'' \<noteq> []"
    by (simp_all add: lit_def)
  have r: "read_property ?ma (lit ''session'') = Missing"
    "read_property ?ma (lit ''constructor'') = Inherited"
    by (simp_all add: read_property_def inherited_names_def lit_def)
  note t1 = short_key_refused_on_env_paths [OF short, where e = ?e and native = True
      and rnd = "replicate 32 0x2A" and session = "lit ''abc''" and ev = ?ev
      and cookies = "[lit ''session=abc'']" and m = ?m and name = "lit ''session''"
      and s = "lit ''abc''"]
  note t2 = short_key_refused_on_env_paths [OF short, where e = ?e and native = True
      and rnd = "replicate 32 0x2A" and ev = ?nohdr and key = "lit ''short''"
      and d = "StringData (lit ''hello'')"]
  note t3 = short_key_refused_on_env_paths [OF short, where e = ?e and native = True
      and rnd = "replicate 32 0x2A" and ev = ?ea and cookies = "[lit ''a=b'']" and m = ?ma
      and name = "lit ''session''"]
  note t4 = short_key_refused_on_env_paths [OF short, where e = ?ec and native = True
      and rnd = "replicate 32 0x2A" and ev = ?ea and cookies = "[lit ''a=b'']" and m = ?ma
      and name = "lit ''constructor''"]
  note t5 = short_key_refused_on_env_paths [OF short, where e = ?es and native = True
      and rnd = "replicate 32 0x2A" and ev = ?ea and cookies = "[lit ''a=b'']"
      and err' = CookieNameInvalid]
  have s: "SESSION_COOKIE_SECRET ?e = ?k" "SESSION_COOKIE_SECRET ?ec = ?k"
    "SESSION_COOKIE_SECRET ?es = ?k"
    by simp_all
  from t1 [OF s(1)] c n v parseCookie_session_example
  have 1: "\<exists>err. verifySessionString True (replicate 32 0x2A) ?e (lit ''abc'') = Inl err"
    "\<exists>err. verifyCookieFromEvent True (replicate 32 0x2A) ?e ?ev = Inl err"
    by blast+
  from t2 [OF s(1)] c
  have 2: "verifyCookieFromEvent True (replicate 32 0x2A) ?e ?nohdr = Inr False"
    "verify True (replicate 32 0x2A) (lit ''short'') (StringData (lit ''hello''))
       (sign (StringData (lit ''hello'')) (lit ''short'') None) = Inr True"
    by blast+
  from t3 [OF s(1)] c n r parseCookie_other_example
  have 3: "verifyCookieFromEvent True (replicate 32 0x2A) ?e ?ea = Inr False" by blast
  from t4 [OF s(2)] c r parseCookie_other_example getCookieName_constructor [of ?k]
  have 4: "verifyCookieFromEvent True (replicate 32 0x2A) ?ec ?ea =
      Inl (TypeError ''substring is not a function'')" by blast
  from t5 [OF s(3)] c getCookieName_with_space [of ?k]
  have 5: "verifyCookieFromEvent True (replicate 32 0x2A) ?es ?ea = Inl CookieNameInvalid"
    by blast
  from 1 2 3 4 5 show ?thesis by blast
qed

subsection \<open>The SameSite attribute\<close>

lemma sameSite_attribute_cases:
  "sameSite_attribute v s =
     (if \<not> truthy v then Inr s
      else if v = VBool True \<or> (\<exists>x. v = VString x \<and> toLowerCase x = lit ''strict'')
        then Inr (s @ lit ''; SameSite=Strict'')
      else if \<exists>x. v = VString x \<and> toLowerCase x = lit ''lax'' then Inr (s @ lit ''; SameSite=Lax'')
      else if \<exists>x. v = VString x \<and> toLowerCase x = lit ''none'' then Inr (s @ lit ''; SameSite=None'')
      else Inl (TypeError ''option sameSite is invalid''))"
proof -
  have ne: "lit ''strict'' \<noteq> lit ''lax''" "lit ''strict'' \<noteq> lit ''none''"
    "lit ''lax'' \<noteq> lit ''none''"
    by (simp_all add: lit_def)
  show ?thesis
    using ne by (cases v) (auto simp: sameSite_attribute_def truthy_def Let_def)
qed

lemma sameSite_attribute_undefined: "sameSite_attribute VUndefined s = Inr s"
  by (simp add: sameSite_attribute_def truthy_def)

lemma and_then_Inr: "and_then m (\<lambda>s. Inr s) = m"
  by (cases m) (simp_all add: and_then_def)

lemma and_then_result: "and_then (Inr x) f = f x" "and_then (Inl e) f = Inl e"
  by (simp_all add: and_then_def)

lemma and_then_undefined: "and_then m (\<lambda>s. sameSite_attribute VUndefined s) = m"
  by (simp add: sameSite_attribute_undefined and_then_Inr)

lemma and_then_assoc: "and_then (and_then m f) g = and_then m (\<lambda>x. and_then (f x) g)"
  by (cases m) (simp_all add: and_then_def)

lemma and_then_if: "and_then (if b then Inl e else m) g = (if b then Inl e else and_then m g)"
  by (simp add: and_then_def)

lemma serializeCookie_then_sameSite:
  "serializeCookie h name val (Some opts) =
     and_then (serializeCookie h name val (Some (opts\<lparr>sameSite := VUndefined\<rparr>)))
       (sameSite_attribute (sameSite opts))"
  by (simp add: serializeCookie_def field_def field_opt_def and_then_assoc and_then_if
      and_then_undefined and_then_result split: jsval.splits cong: if_cong)

lemma lower_unit:
  fixes c l :: unit16
  assumes "97 \<le> unat l" "unat l \<le> 122" "l \<noteq> 0x6B"
  shows "(if 65 \<le> unat c \<and> unat c \<le> 90 then c + 32 else if c = 0x212A then 0x6B else c) = l
           \<longleftrightarrow> c = l \<or> c + 32 = l"
proof -
  have a: "unat (c + 32) = (unat c + 32) mod 65536" by (simp add: unat_word_ariths)
  have b: "unat c < 65536" using unsigned_less [of c, where ?'a = nat] by simp
  have up: "65 \<le> unat c \<and> unat c \<le> 90" if "c + 32 = l"
  proof -
    from that a have e: "unat l = (unat c + 32) mod 65536" by simp
    show ?thesis
    proof (cases "unat c + 32 < 65536")
      case True
      with e have "unat l = unat c + 32" by simp
      with assms show ?thesis by simp
    next
      case False
      with b have "(unat c + 32) mod 65536 = unat c + 32 - 65536"
        by (simp add: le_mod_geq)
      with e b assms show ?thesis by simp
    qed
  qed
  have low: "\<not> (65 \<le> unat c \<and> unat c \<le> 90)" "c \<noteq> 0x212A" if "c = l"
    using that assms by auto
  show ?thesis
  proof (cases "65 \<le> unat c \<and> unat c \<le> 90")
    case True
    with low show ?thesis by auto
  next
    case False
    with up have n: "c + 32 \<noteq> l" by blast
    show ?thesis
    proof (cases "c = 0x212A")
      case True
      with False n assms(3) low show ?thesis by auto
    next
      case False
      with \<open>\<not> (65 \<le> unat c \<and> unat c \<le> 90)\<close> n show ?thesis by auto
    qed
  qed
qed

lemma toLowerCase_same_letters:
  assumes "list_all (\<lambda>l. 97 \<le> unat l \<and> unat l \<le> 122 \<and> l \<noteq> 0x6B) w"
  shows "toLowerCase x = w \<longleftrightarrow> same_letters x w"
  using assms
proof (induction w arbitrary: x)
  case Nil
  then show ?case by (simp add: toLowerCase_def same_letters_def)
next
  case (Cons l w)
  show ?case
  proof (cases x)
    case Nil
    then show ?thesis by (simp add: toLowerCase_def same_letters_def)
  next
    case (Cons c cs)
    from Cons.prems have l: "97 \<le> unat l" "unat l \<le> 122" "l \<noteq> 0x6B"
      and w: "list_all (\<lambda>l. 97 \<le> unat l \<and> unat l \<le> 122 \<and> l \<noteq> 0x6B) w"
      by simp_all
    from Cons.IH [OF w, of cs] have "map (\<lambda>c. if 65 \<le> unat c \<and> unat c \<le> 90 then c + 32
        else if c = 0x212A then 0x6B else c) cs = w \<longleftrightarrow> list_all2 (\<lambda>c l. c = l \<or> c + 32 = l) cs w"
      by (simp add: toLowerCase_def same_letters_def)
    with lower_unit [OF l, of c] Cons show ?thesis
      by (simp add: toLowerCase_def same_letters_def)
  qed
qed

lemma toLowerCase_words:
  "toLowerCase x = lit ''lax'' \<longleftrightarrow> same_letters x (lit ''lax'')"
  "toLowerCase x = lit ''strict'' \<longleftrightarrow> same_letters x (lit ''strict'')"
  "toLowerCase x = lit ''none'' \<longleftrightarrow> same_letters x (lit ''none'')"
  by (rule toLowerCase_same_letters, simp add: lit_def)+

lemma serialize_a_b:
  "serializeCookie h (lit ''a'') (lit ''b'') (Some (no_options\<lparr>sameSite := v\<rparr>)) =
     sameSite_attribute v (lit ''a=b'')"
  by (simp add: serializeCookie_def no_options_def field_def field_opt_def truthy_def and_then_def
      encode_def lit_def uri_unreserved_def fieldContent_def maxAge_attribute_def
      domain_attribute_def path_attribute_def expires_attribute_def flag_attribute_def
      priority_attribute_def is_high_surrogate_def is_low_surrogate_def is_digit_def)

lemma sameSite_attribute_words:
  "sameSite_attribute (VString (lit ''LAX'')) s = Inr (s @ lit ''; SameSite=Lax'')"
  "sameSite_attribute (VString (lit ''Strict'')) s = Inr (s @ lit ''; SameSite=Strict'')"
  "sameSite_attribute (VString (lit ''nOnE'')) s = Inr (s @ lit ''; SameSite=None'')"
  by (simp_all add: sameSite_attribute_def truthy_def toLowerCase_def lit_def)

text \<open>
  C8: how \<^verbatim>\<open>serializeCookie\<close> renders \<^verbatim>\<open>sameSite\<close>, for every name, value and options.
  The attribute comes last: the call throws whatever it throws without \<^verbatim>\<open>sameSite\<close>,
  and otherwise its result is the string \<open>s\<close> that it returns without \<^verbatim>\<open>sameSite\<close>,
  followed by the attribute. A falsy value adds nothing; \<^verbatim>\<open>true\<close> and a string that is
  \<^verbatim>\<open>strict\<close> up to the case of its letters give \<^verbatim>\<open>; SameSite=Strict\<close>, \<^verbatim>\<open>lax\<close> gives
  \<^verbatim>\<open>; SameSite=Lax\<close>, \<^verbatim>\<open>none\<close> gives \<^verbatim>\<open>; SameSite=None\<close>; every other truthy value
  throws. In particular \<^verbatim>\<open>serializeCookie('a', 'b', {sameSite: true})\<close> is
  \<^verbatim>\<open>a=b; SameSite=Strict\<close>, \<^verbatim>\<open>'bogus'\<close> throws, and \<^verbatim>\<open>'LAX'\<close>, \<^verbatim>\<open>'Strict'\<close> and
  \<^verbatim>\<open>'nOnE'\<close> are accepted.
\<close>

theorem serializeCookie_sameSite:
  "(serializeCookie h name val (Some (opts\<lparr>sameSite := VUndefined\<rparr>)) = Inl err \<longrightarrow>
      serializeCookie h name val (Some opts) = Inl err) \<and>
   (serializeCookie h name val (Some (opts\<lparr>sameSite := VUndefined\<rparr>)) = Inr s \<longrightarrow>
      serializeCookie h name val (Some opts) =
        (if \<not> truthy (sameSite opts) then Inr s
         else if sameSite opts = VBool True
                 \<or> (\<exists>x. sameSite opts = VString x \<and> same_letters x (lit ''strict''))
           then Inr (s @ lit ''; SameSite=Strict'')
         else if \<exists>x. sameSite opts = VString x \<and> same_letters x (lit ''lax'')
           then Inr (s @ lit ''; SameSite=Lax'')
         else if \<exists>x. sameSite opts = VString x \<and> same_letters x (lit ''none'')
           then Inr (s @ lit ''; SameSite=None'')
         else Inl (TypeError ''option sameSite is invalid''))) \<and>
   serializeCookie h (lit ''a'') (lit ''b'') (Some (no_options\<lparr>sameSite := v\<rparr>)) =
     (if \<not> truthy v then Inr (lit ''a=b'')
      else if v = VBool True \<or> (\<exists>x. v = VString x \<and> toLowerCase x = lit ''strict'')
        then Inr (lit ''a=b; SameSite=Strict'')
      else if \<exists>x. v = VString x \<and> toLowerCase x = lit ''lax'' then Inr (lit ''a=b; SameSite=Lax'')
      else if \<exists>x. v = VString x \<and> toLowerCase x = lit ''none'' then Inr (lit ''a=b; SameSite=None'')
      else Inl (TypeError ''option sameSite is invalid'')) \<and>
   serializeCookie h (lit ''a'') (lit ''b'') (Some (no_options\<lparr>sameSite := VBool True\<rparr>)) =
     Inr (lit ''a=b; SameSite=Strict'') \<and>
   serializeCookie h (lit ''a'') (lit ''b'')
       (Some (no_options\<lparr>sameSite := VString (lit ''bogus'')\<rparr>)) =
     Inl (TypeError ''option sameSite is invalid'') \<and>
   serializeCookie h (lit ''a'') (lit ''b'')
       (Some (no_options\<lparr>sameSite := VString (lit ''LAX'')\<rparr>)) =
     Inr (lit ''a=b; SameSite=Lax'') \<and>
   serializeCookie h (lit ''a'') (lit ''b'')
       (Some (no_options\<lparr>sameSite := VString (lit ''Strict'')\<rparr>)) =
     Inr (lit ''a=b; SameSite=Strict'') \<and>
   serializeCookie h (lit ''a'') (lit ''b'')
       (Some (no_options\<lparr>sameSite := VString (lit ''nOnE'')\<rparr>)) =
     Inr (lit ''a=b; SameSite=None'')"
proof -
  have l: "lit ''a=b'' @ lit x = lit (''a=b'' @ x)" for x by (simp add: lit_def)
  have b: "toLowerCase (lit ''bogus'') = lit ''bogus''"
    "lit ''bogus'' \<noteq> lit ''strict''" "lit ''bogus'' \<noteq> lit ''lax''"
    "lit ''bogus'' \<noteq> lit ''none''" "lit ''bogus'' \<noteq> []"
    by (simp_all add: toLowerCase_def lit_def)
  note split = serializeCookie_then_sameSite [of h name val opts]
  have g1: "serializeCookie h name val (Some opts) = Inl err"
    if "serializeCookie h name val (Some (opts\<lparr>sameSite := VUndefined\<rparr>)) = Inl err"
    using split that by (simp add: and_then_result)
  have g2: "serializeCookie h name val (Some opts) =
        (if \<not> truthy (sameSite opts) then Inr s
         else if sameSite opts = VBool True
                 \<or> (\<exists>x. sameSite opts = VString x \<and> same_letters x (lit ''strict''))
           then Inr (s @ lit ''; SameSite=Strict'')
         else if \<exists>x. sameSite opts = VString x \<and> same_letters x (lit ''lax'')
           then Inr (s @ lit ''; SameSite=Lax'')
         else if \<exists>x. sameSite opts = VString x \<and> same_letters x (lit ''none'')
           then Inr (s @ lit ''; SameSite=None'')
         else Inl (TypeError ''option sameSite is invalid''))"
    if "serializeCookie h name val (Some (opts\<lparr>sameSite := VUndefined\<rparr>)) = Inr s"
  proof -
    from split that
    have "serializeCookie h name val (Some opts) = sameSite_attribute (sameSite opts) s"
      by (simp add: and_then_result)
    then show ?thesis
      by (simp only: sameSite_attribute_cases toLowerCase_words)
  qed
  have 1: "serializeCookie h (lit ''a'') (lit ''b'') (Some (no_options\<lparr>sameSite := v\<rparr>)) =
     (if \<not> truthy v then Inr (lit ''a=b'')
      else if v = VBool True \<or> (\<exists>x. v = VString x \<and> toLowerCase x = lit ''strict'')
        then Inr (lit ''a=b; SameSite=Strict'')
      else if \<exists>x. v = VString x \<and> toLowerCase x = lit ''lax'' then Inr (lit ''a=b; SameSite=Lax'')
      else if \<exists>x. v = VString x \<and> toLowerCase x = lit ''none'' then Inr (lit ''a=b; SameSite=None'')
      else Inl (TypeError ''option sameSite is invalid''))" for v
    by (simp only: serialize_a_b sameSite_attribute_cases l append.simps)
  have 2: "serializeCookie h (lit ''a'') (lit ''b'') (Some (no_options\<lparr>sameSite := VBool True\<rparr>)) =
     Inr (lit ''a=b; SameSite=Strict'')"
    by (simp add: 1 truthy_def)
  have 3: "serializeCookie h (lit ''a'') (lit ''b'')
       (Some (no_options\<lparr>sameSite := VString (lit ''bogus'')\<rparr>)) =
     Inl (TypeError ''option sameSite is invalid'')"
    using b by (simp add: 1 truthy_def)
  have 4: "serializeCookie h (lit ''a'') (lit ''b'')
       (Some (no_options\<lparr>sameSite := VString (lit ''LAX'')\<rparr>)) =
     Inr (lit ''a=b; SameSite=Lax'')"
    "serializeCookie h (lit ''a'') (lit ''b'')
       (Some (no_options\<lparr>sameSite := VString (lit ''Strict'')\<rparr>)) =
     Inr (lit ''a=b; SameSite=Strict'')"
    "serializeCookie h (lit ''a'') (lit ''b'')
       (Some (no_options\<lparr>sameSite := VString (lit ''nOnE'')\<rparr>)) =
     Inr (lit ''a=b; SameSite=None'')"
    by (simp_all only: serialize_a_b sameSite_attribute_words l append.simps)
  from g1 g2 1 [of v] 2 3 4 show ?thesis by blast
qed

lemma digits_week: "digits 604800 = ''604800''"
  by code_simp

lemma serialize_session_example:
  "serializeCookie some_host (lit ''session'') (lit ''abc'')
     (Some (no_options\<lparr>maxAge := VNumber (Finite 604800), path := Some (lit ''/''),
        httpOnly := VBool True, secure := VBool True, sameSite := VUndefined\<rparr>)) =
   Inr (lit ''session=abc; Max-Age=604800; Path=/; HttpOnly; Secure'')"
  by (simp add: serializeCookie_def no_options_def field_def field_opt_def truthy_def and_then_def
      encode_def lit_def uri_unreserved_def fieldContent_def maxAge_attribute_def to_number_def
      integer_text_def digits_week
      domain_attribute_def path_attribute_def expires_attribute_def flag_attribute_def
      priority_attribute_def is_high_surrogate_def is_low_surrogate_def is_digit_def
      sameSite_attribute_def)

lemma serialize_bad_name_example:
  "serializeCookie some_host [] (lit ''abc'')
     (Some (no_options\<lparr>sameSite := VUndefined\<rparr>)) =
   Inl (TypeError ''argument name is invalid'')"
  by (simp add: serializeCookie_def no_options_def field_def truthy_def and_then_def
      fieldContent_def)

theorem serializeCookie_sameSite_witness:
  "serializeCookie some_host (lit ''session'') (lit ''abc'')
     (Some (no_options\<lparr>maxAge := VNumber (Finite 604800), path := Some (lit ''/''),
        httpOnly := VBool True, secure := VBool True, sameSite := VString (lit ''LAX'')\<rparr>)) =
   Inr (lit ''session=abc; Max-Age=604800; Path=/; HttpOnly; Secure; SameSite=Lax'') \<and>
   serializeCookie some_host (lit ''session'') (lit ''abc'')
     (Some (no_options\<lparr>maxAge := VNumber (Finite 604800), path := Some (lit ''/''),
        httpOnly := VBool True, secure := VBool True, sameSite := VNumber (Finite 1)\<rparr>)) =
   Inl (TypeError ''option sameSite is invalid'') \<and>
   serializeCookie some_host [] (lit ''abc'')
     (Some (no_options\<lparr>sameSite := VString (lit ''lax'')\<rparr>)) =
   Inl (TypeError ''argument name is invalid'')"
proof -
  let ?o = "no_options\<lparr>maxAge := VNumber (Finite 604800), path := Some (lit ''/''),
        httpOnly := VBool True, secure := VBool True, sameSite := VString (lit ''LAX'')\<rparr>"
  let ?n = "no_options\<lparr>maxAge := VNumber (Finite 604800), path := Some (lit ''/''),
        httpOnly := VBool True, secure := VBool True, sameSite := VNumber (Finite 1)\<rparr>"
  let ?b = "no_options\<lparr>sameSite := VString (lit ''lax'')\<rparr>"
  let ?s = "lit ''session=abc; Max-Age=604800; Path=/; HttpOnly; Secure''"
  have u: "?o\<lparr>sameSite := VUndefined\<rparr> =
      no_options\<lparr>maxAge := VNumber (Finite 604800), path := Some (lit ''/''),
        httpOnly := VBool True, secure := VBool True, sameSite := VUndefined\<rparr>"
    "?n\<lparr>sameSite := VUndefined\<rparr> =
      no_options\<lparr>maxAge := VNumber (Finite 604800), path := Some (lit ''/''),
        httpOnly := VBool True, secure := VBool True, sameSite := VUndefined\<rparr>"
    "?b\<lparr>sameSite := VUndefined\<rparr> = no_options\<lparr>sameSite := VUndefined\<rparr>"
    by simp_all
  have f: "sameSite ?o = VString (lit ''LAX'')" "sameSite ?n = VNumber (Finite 1)"
    by simp_all
  have c: "truthy (VString (lit ''LAX''))" "same_letters (lit ''LAX'') (lit ''lax'')"
    "\<not> same_letters (lit ''LAX'') (lit ''strict'')" "truthy (VNumber (Finite 1))"
    by (simp_all add: truthy_def same_letters_def lit_def)
  have a: "?s @ lit ''; SameSite=Lax'' =
      lit ''session=abc; Max-Age=604800; Path=/; HttpOnly; Secure; SameSite=Lax''"
    by (simp add: lit_def)
  note t1 = serializeCookie_sameSite [where h = some_host and name = "lit ''session''"
      and val = "lit ''abc''" and opts = ?o and s = ?s]
  note t2 = serializeCookie_sameSite [where h = some_host and name = "lit ''session''"
      and val = "lit ''abc''" and opts = ?n and s = ?s]
  note t3 = serializeCookie_sameSite [where h = some_host and name = "[]"
      and val = "lit ''abc''" and opts = ?b and err = "TypeError ''argument name is invalid''"]
  from t1 have "serializeCookie some_host (lit ''session'') (lit ''abc'') (Some ?o) =
      Inr (?s @ lit ''; SameSite=Lax'')"
    unfolding u f using serialize_session_example c by simp
  then have 1: "serializeCookie some_host (lit ''session'') (lit ''abc'') (Some ?o) =
      Inr (lit ''session=abc; Max-Age=604800; Path=/; HttpOnly; Secure; SameSite=Lax'')"
    by (simp only: a)
  from t2 have 2: "serializeCookie some_host (lit ''session'') (lit ''abc'') (Some ?n) =
      Inl (TypeError ''option sameSite is invalid'')"
    unfolding u f using serialize_session_example c by simp
  from t3 have 3: "serializeCookie some_host [] (lit ''abc'') (Some ?b) =
      Inl (TypeError ''argument name is invalid'')"
    unfolding u using serialize_bad_name_example by blast
  from 1 2 3 show ?thesis by blast
qed

end
